theory Spec2Isabelle
  imports Complex_Main "HOL-Library.Multiset"
begin

section \<open>Data model of \<^verbatim>\<open>processing.py\<close>\<close>

text \<open>
  Times are Python floats (seconds). They are modelled as \<^typ>\<open>real\<close>: comparisons and
  \<^verbatim>\<open>max\<close> are exact on floats. In \<open>calculate_eta\<close> the rounding of each float operation
  is a parameter; elsewhere differences, products and quotients are the exact ones.
\<close>

datatype ClipType = FILLER | SILENCE

text \<open>The dataclass \<^verbatim>\<open>Clip\<close>; the field \<^verbatim>\<open>end\<close> is written \<open>end'\<close>.\<close>

record Clip =
  type :: ClipType
  start :: real
  end' :: real
  content :: string

type_synonym interval = "real \<times> real"

text \<open>
  A word of a transcript segment as \<^verbatim>\<open>faster_whisper\<close> yields it, with the attributes
  the code reads: \<^verbatim>\<open>word.start\<close>, \<^verbatim>\<open>word.end\<close>, \<^verbatim>\<open>word.word\<close>,
  and a segment with its \<^verbatim>\<open>segment.words\<close>.
\<close>

record Word =
  wstart :: real
  wend :: real
  word :: string

record Segment =
  words :: "Word list"

text \<open>A raised Python exception, with its message.\<close>

datatype exn = Exception string

text \<open>
  The Qt signals of \<^verbatim>\<open>VideoProcessor\<close>. The Chinese label texts are abstracted to
  constructors named after their meaning; \<^verbatim>\<open>progress\<close> carries the percent and the label
  (its third argument, the ETA text, is \<open>calculate_eta\<close> below, evaluated at emission time).
\<close>

datatype progress_label =
    Extracting_audio
  | Transcribing
  | Identifying nat nat
  | Analysis_done
  | Preparing
  | Ffmpeg_processing
  | Ffmpeg_done
  | Export_done
  | Optimizing
  | Processing_segment nat nat
  | Concatenating

datatype status_msg = Using_hardware string | Fallback | Cuda_detected

datatype error_msg = Analysis_failed exn | Export_failed exn | No_keep_segments

datatype event =
    Progress int progress_label
  | Status status_msg
  | Finished "Clip list"
  | Finished_export string
  | Error error_msg

text \<open>
  The fields of a \<^verbatim>\<open>VideoProcessor\<close> that the two runs read and write, and the signals
  emitted so far, oldest first.
\<close>

record VideoProcessor =
  video_path :: string
  filler_words :: "string list"
  silence_threshold :: real
  clips_to_remove :: "Clip list"
  output_path :: string
  current_step :: int
  signals :: "event list"

text \<open>\<^verbatim>\<open>__init__\<close>, lines 57-67.\<close>

definition init :: "string \<Rightarrow> string list \<Rightarrow> real \<Rightarrow> VideoProcessor" where
  "init path fillers threshold =
     \<lparr>video_path = path, filler_words = fillers, silence_threshold = threshold,
      clips_to_remove = [], output_path = [], current_step = 0, signals = []\<rparr>"

definition emit :: "event \<Rightarrow> VideoProcessor \<Rightarrow> VideoProcessor" where
  "emit e s = s\<lparr>signals := signals s @ [e]\<rparr>"

text \<open>
  The recurring triple \<^verbatim>\<open>self.current_step = p; eta = ...; self.progress.emit(p, label, eta)\<close>.
\<close>

definition progress :: "int \<Rightarrow> progress_label \<Rightarrow> VideoProcessor \<Rightarrow> VideoProcessor" where
  "progress p label s = emit (Progress p label) (s\<lparr>current_step := p\<rparr>)"

text \<open>Python's \<^verbatim>\<open>int(x)\<close> on a float: truncation towards zero.\<close>

definition py_int :: "real \<Rightarrow> int" where
  "py_int x = (if 0 \<le> x then \<lfloor>x\<rfloor> else \<lceil>x\<rceil>)"

text \<open>
  Python's \<^verbatim>\<open>x % m\<close> on floats for \<open>x \<ge> 0\<close> and \<open>m > 0\<close>, where it is exact (C's
  \<^verbatim>\<open>fmod\<close>).
\<close>

definition py_fmod :: "real \<Rightarrow> real \<Rightarrow> real" where
  "py_fmod x m = x - m * of_int \<lfloor>x / m\<rfloor>"

section \<open>Clip detection (\<^verbatim>\<open>analyze\<close>)\<close>

text \<open>
  Lines 119-129: the body of \<^verbatim>\<open>for word in segment.words\<close> on the pair
  \<open>(clips_found, last_word_end)\<close>. The parameter \<open>strip\<close> is Python's \<^verbatim>\<open>str.strip()\<close>
  (line 126), which removes the whitespace characters of the Unicode database at both ends:
  it is taken from the environment and nothing is assumed about it. The gap
  \<^verbatim>\<open>word.start - last_word_end\<close> is the exact difference; Python rounds it to the nearest
  float, and since rounding is monotone and the threshold is a float, the rounded gap is
  \<open>\<le>\<close> the threshold whenever the exact one is, and the exact gap is positive whenever the
  rounded one is.
\<close>

definition word_step ::
  "(string \<Rightarrow> string) \<Rightarrow> string list \<Rightarrow> real \<Rightarrow> Clip list \<times> real \<Rightarrow> Word \<Rightarrow>
   Clip list \<times> real" where
  "word_step strip fillers threshold st w =
     (case st of (clips_found, last_word_end) \<Rightarrow>
        let silence_duration = wstart w - last_word_end;
            clips1 = (if silence_duration > threshold
                      then clips_found @
                        [\<lparr>type = SILENCE, start = last_word_end, end' = wstart w, content = []\<rparr>]
                      else clips_found);
            clips2 = (if strip (word w) \<in> set fillers
                      then clips1 @
                        [\<lparr>type = FILLER, start = wstart w, end' = wend w,
                          content = strip (word w)\<rparr>]
                      else clips1)
        in (clips2, wend w))"

text \<open>
  Lines 112-129: the body of \<^verbatim>\<open>for segment in segments\<close> on the processor and the
  locals \<open>(clips_found, last_word_end, segments_processed)\<close>.
\<close>

definition segment_step ::
  "(string \<Rightarrow> string) \<Rightarrow> nat \<Rightarrow> VideoProcessor \<times> Clip list \<times> real \<times> nat \<Rightarrow> Segment \<Rightarrow>
   VideoProcessor \<times> Clip list \<times> real \<times> nat" where
  "segment_step strip total_segments st segment =
     (case st of (s, clips_found, last_word_end, segments_processed) \<Rightarrow>
        let n = segments_processed + 1;
            progress_in_step =
              (if total_segments > 0 then py_int (40 * (real n / real total_segments)) else 0);
            s' = progress (30 + progress_in_step) (Identifying n total_segments) s
        in (case foldl (word_step strip (filler_words s') (silence_threshold s'))
                   (clips_found, last_word_end) (words segment) of
              (clips_found', last_word_end') \<Rightarrow> (s', clips_found', last_word_end', n)))"

text \<open>
  A Python generator as its consumer sees it: the items it yields, and the exception that
  ends the iteration, if one does.
\<close>

type_synonym 'a generator = "'a list \<times> exn option"

text \<open>
  What \<^verbatim>\<open>analyze\<close> gets from its collaborators:
  \<^item> \<open>extract_audio\<close>: the audio extraction of lines 90-92 returns or raises;
  \<^item> \<open>transcribe_count\<close>: the first call of \<^verbatim>\<open>model.transcribe\<close> (lines 99-101; loading the
    model is part of it). It raises, or returns the lazy generator of segments that
    \<^verbatim>\<open>list(segments)\<close> consumes at line 105;
  \<^item> \<open>transcribe\<close>: the second call (line 109), whose generator the loop of line 112
    consumes. Nothing makes it yield the segments of the first call again;
  \<^item> \<open>str_strip\<close>: Python's \<^verbatim>\<open>str.strip()\<close>.
\<close>

record analyze_env =
  extract_audio :: "exn + unit"
  transcribe_count :: "exn + Segment generator"
  transcribe :: "exn + Segment generator"
  str_strip :: "string \<Rightarrow> string"

text \<open>
  \<^verbatim>\<open>analyze\<close>, lines 78-137. Every exception ends in the handler of line 137, after the
  signals already emitted; the clean-up of lines 138-151 emits nothing.
\<close>

definition analyze :: "analyze_env \<Rightarrow> VideoProcessor \<Rightarrow> VideoProcessor" where
  "analyze env s0 =
     (let s1 = progress 10 Extracting_audio (s0\<lparr>current_step := 0\<rparr>) in
      case extract_audio env of
        Inl e \<Rightarrow> emit (Error (Analysis_failed e)) s1
      | Inr _ \<Rightarrow>
          let s2 = progress 30 Transcribing s1 in
          (case transcribe_count env of
             Inl e \<Rightarrow> emit (Error (Analysis_failed e)) s2
           | Inr (counted, Some e) \<Rightarrow> emit (Error (Analysis_failed e)) s2
           | Inr (counted, None) \<Rightarrow>
               (case transcribe env of
                  Inl e \<Rightarrow> emit (Error (Analysis_failed e)) s2
                | Inr (segments, raised) \<Rightarrow>
                    (case foldl (segment_step (str_strip env) (length counted)) (s2, [], 0, 0)
                            segments of
                       (s3, clips_found, last_word_end, segments_processed) \<Rightarrow>
                         (case raised of
                            Some e \<Rightarrow> emit (Error (Analysis_failed e)) s3
                          | None \<Rightarrow>
                              emit (Finished clips_found) (progress 100 Analysis_done s3))))))"

text \<open>
  The detector proper: the clips and the cursor after the words \<open>ws\<close> have been processed in
  arrival order, from the initial \<open>clips_found = []\<close>, \<open>last_word_end = 0.0\<close>.
\<close>

definition detect ::
  "(string \<Rightarrow> string) \<Rightarrow> string list \<Rightarrow> real \<Rightarrow> Word list \<Rightarrow> Clip list" where
  "detect strip fillers threshold ws =
     fst (foldl (word_step strip fillers threshold) ([], 0) ws)"

definition last_word_end_after ::
  "(string \<Rightarrow> string) \<Rightarrow> string list \<Rightarrow> real \<Rightarrow> Word list \<Rightarrow> real" where
  "last_word_end_after strip fillers threshold ws =
     snd (foldl (word_step strip fillers threshold) ([], 0) ws)"

text \<open>The percents of the progress signals, in emission order.\<close>

fun percent_of :: "event \<Rightarrow> int list" where
  "percent_of (Progress p label) = [p]"
| "percent_of e = []"

definition percents :: "VideoProcessor \<Rightarrow> int list" where
  "percents s = concat (map percent_of (signals s))"

section \<open>ETA text (\<^verbatim>\<open>calculate_eta\<close>)\<close>

text \<open>
  The literal pieces of the returned texts, as UTF-8 bytes: the "computing" label (line 156),
  the "finishing" label (line 160), and the prefix and the unit words of the three
  "remaining" formats (lines 170, 174, 178).
\<close>

definition str_computing :: string where
  "str_computing = [CHR 0xE8, CHR 0xAE, CHR 0xA1, CHR 0xE7, CHR 0xAE, CHR 0x97, CHR 0xE4,
                    CHR 0xB8, CHR 0xAD, CHR ''.'', CHR ''.'', CHR ''.'']"

definition str_finishing :: string where
  "str_finishing = [CHR 0xE5, CHR 0x8D, CHR 0xB3, CHR 0xE5, CHR 0xB0, CHR 0x86, CHR 0xE5,
                    CHR 0xAE, CHR 0x8C, CHR 0xE6, CHR 0x88, CHR 0x90]"

definition str_remaining :: string where
  "str_remaining = [CHR 0xE9, CHR 0xA2, CHR 0x84, CHR 0xE8, CHR 0xAE, CHR 0xA1, CHR 0xE5,
                    CHR 0x89, CHR 0xA9, CHR 0xE4, CHR 0xBD, CHR 0x99, CHR '' '']"

definition str_sec :: string where
  "str_sec = [CHR '' '', CHR 0xE7, CHR 0xA7, CHR 0x92]"

definition str_min :: string where
  "str_min = [CHR '' '', CHR 0xE5, CHR 0x88, CHR 0x86, CHR '' '']"

definition str_hour :: string where
  "str_hour = [CHR '' '', CHR 0xE5, CHR 0xB0, CHR 0x8F, CHR 0xE6, CHR 0x97, CHR 0xB6, CHR '' '']"

definition str_minute :: string where
  "str_minute = [CHR '' '', CHR 0xE5, CHR 0x88, CHR 0x86, CHR 0xE9, CHR 0x92, CHR 0x9F]"

text \<open>\<^verbatim>\<open>str(n)\<close> of an integer, as an f-string renders it.\<close>

fun digits :: "nat \<Rightarrow> string" where
  "digits n = (if n < 10 then [char_of (48 + n)] else digits (n div 10) @ [char_of (48 + n mod 10)])"

definition str_int :: "int \<Rightarrow> string" where
  "str_int i = (if i < 0 then CHR ''-'' # digits (nat (- i)) else digits (nat i))"

definition fmt_seconds :: "int \<Rightarrow> string" where
  "fmt_seconds seconds = str_remaining @ str_int seconds @ str_sec"

definition fmt_minutes_seconds :: "int \<Rightarrow> int \<Rightarrow> string" where
  "fmt_minutes_seconds minutes seconds =
     str_remaining @ str_int minutes @ str_min @ str_int seconds @ str_sec"

definition fmt_hours_minutes :: "int \<Rightarrow> int \<Rightarrow> string" where
  "fmt_hours_minutes hours minutes =
     str_remaining @ str_int hours @ str_hour @ str_int minutes @ str_minute"

text \<open>
  Lines 153-178. \<open>start_time\<close> is \<^verbatim>\<open>self.start_time\<close> (\<open>None\<close> before a run has
  started), \<open>now\<close> is the value \<^verbatim>\<open>time.time()\<close> returns at line 158.

  The arithmetic of these lines is float arithmetic: each of \<^verbatim>\<open>-\<close> and \<^verbatim>\<open>/\<close> gives the
  exact result rounded to a float. The rounding is the parameter \<open>rnd\<close>, about which nothing
  is assumed. \<^verbatim>\<open>current_progress / 100.0\<close> is computed for \<open>0 < current_progress < 100\<close> only,
  where the conversion of the integer is exact; \<^verbatim>\<open>%\<close> is computed for a positive left
  operand only, where it is C's exact \<^verbatim>\<open>fmod\<close>; comparisons and \<^verbatim>\<open>int()\<close> are exact.
\<close>

definition calculate_eta :: "(real \<Rightarrow> real) \<Rightarrow> real option \<Rightarrow> real \<Rightarrow> int \<Rightarrow> string" where
  "calculate_eta rnd start_time now current_progress =
     (case start_time of
        None \<Rightarrow> str_computing
      | Some started \<Rightarrow>
          if current_progress \<le> 0 then str_computing
          else
            let elapsed_time = rnd (now - started) in
            if current_progress \<ge> 100 then str_finishing
            else
              let progress_ratio = rnd (real_of_int current_progress / 100) in
              if progress_ratio \<le> 0 then str_computing
              else
                let estimated_total_time = rnd (elapsed_time / progress_ratio);
                    remaining_time = rnd (estimated_total_time - elapsed_time)
                in
                  if remaining_time < 60 then fmt_seconds (py_int remaining_time)
                  else if remaining_time < 3600 then
                    fmt_minutes_seconds (py_int (rnd (remaining_time / 60)))
                      (py_int (py_fmod remaining_time 60))
                  else
                    fmt_hours_minutes (py_int (rnd (remaining_time / 3600)))
                      (py_int (rnd (py_fmod remaining_time 3600 / 60))))"

section \<open>Keep intervals\<close>

text \<open>
  \<^verbatim>\<open>_build_ffmpeg_select_expression\<close>, lines 318-324: one iteration of
  \<^verbatim>\<open>for clip in self.clips_to_remove\<close> on the pair \<open>(keep_times, last_end)\<close>.
\<close>

definition ffmpeg_keep_step :: "interval list \<times> real \<Rightarrow> Clip \<Rightarrow> interval list \<times> real" where
  "ffmpeg_keep_step st clip =
     (case st of (keep_times, last_end) \<Rightarrow>
        (if start clip > last_end then keep_times @ [(last_end, start clip)] else keep_times,
         max last_end (end' clip)))"

text \<open>
  Lines 314-327: the stable sort by \<^verbatim>\<open>start\<close>, the walk from \<open>last_end = 0.0\<close>
  and the trailing interval.
\<close>

definition ffmpeg_keep_times :: "Clip list \<Rightarrow> real \<Rightarrow> interval list" where
  "ffmpeg_keep_times clips duration =
     (case foldl ffmpeg_keep_step ([], 0) (sort_key start clips) of
        (keep_times, last_end) \<Rightarrow>
          if last_end < duration then keep_times @ [(last_end, duration)] else keep_times)"

text \<open>
  \<^verbatim>\<open>_moviepy_export\<close>, lines 388-400: the same walk, but the cursor is assigned
  \<^verbatim>\<open>last_end = clip.end\<close>.
\<close>

definition moviepy_keep_step :: "interval list \<times> real \<Rightarrow> Clip \<Rightarrow> interval list \<times> real" where
  "moviepy_keep_step st clip =
     (case st of (clips_to_keep_times, last_end) \<Rightarrow>
        (if start clip > last_end then clips_to_keep_times @ [(last_end, start clip)]
         else clips_to_keep_times,
         end' clip))"

definition moviepy_keep_times :: "Clip list \<Rightarrow> real \<Rightarrow> interval list" where
  "moviepy_keep_times clips duration =
     (case foldl moviepy_keep_step ([], 0) (sort_key start clips) of
        (clips_to_keep_times, last_end) \<Rightarrow>
          if last_end < duration then clips_to_keep_times @ [(last_end, duration)]
          else clips_to_keep_times)"

subsection \<open>Durations and the measure of a union of clips\<close>

definition clip_interval :: "Clip \<Rightarrow> interval" where
  "clip_interval c = (start c, end' c)"

definition total_duration :: "interval list \<Rightarrow> real" where
  "total_duration ivs = sum_list (map (\<lambda>iv. snd iv - fst iv) ivs)"

text \<open>
  The measure of the union of the intervals \<open>[s, e)\<close> of a list, in any order and with any
  overlaps, each covered instant counted once. It is computed by inclusion and exclusion:
  \<open>|A \<union> U| = |A| + |U| - |A \<inter> U|\<close>, where the intersection of \<open>A\<close> with a union is the
  union of the intersections, and the intersection of two intervals is an interval (empty
  when its end is not above its start).
\<close>

definition inter :: "interval \<Rightarrow> interval \<Rightarrow> interval" where
  "inter a b = (max (fst a) (fst b), min (snd a) (snd b))"

function union_measure :: "interval list \<Rightarrow> real" where
  "union_measure [] = 0"
| "union_measure (a # xs) =
     max 0 (snd a - fst a) + union_measure xs - union_measure (map (inter a) xs)"
  by pat_completeness auto
termination
  by (relation "measure length") auto

text \<open>An instant lies in one of the intervals \<open>[s, e)\<close> of a list.\<close>

definition covered :: "interval list \<Rightarrow> real \<Rightarrow> bool" where
  "covered ivs t = list_ex (\<lambda>iv. fst iv \<le> t \<and> t < snd iv) ivs"

text \<open>
  The walk of \<open>ffmpeg_keep_times\<close> from a cursor \<open>L\<close> over clips already sorted, and the
  part of an interval below, respectively above, an instant: the terms the proofs below
  reason with.
\<close>

definition walk :: "real \<Rightarrow> Clip list \<Rightarrow> real \<Rightarrow> interval list" where
  "walk L cs D =
     (case foldl ffmpeg_keep_step ([], L) cs of
        (keep_times, last_end) \<Rightarrow>
          if last_end < D then keep_times @ [(last_end, D)] else keep_times)"

definition clip_hi :: "real \<Rightarrow> interval \<Rightarrow> interval" where
  "clip_hi c iv = (fst iv, min (snd iv) c)"

definition clip_lo :: "real \<Rightarrow> interval \<Rightarrow> interval" where
  "clip_lo c iv = (max (fst iv) c, snd iv)"

text \<open>A removal clip with the given bounds (the kind and the text play no role in the walk).\<close>

definition removal :: "real \<Rightarrow> real \<Rightarrow> Clip" where
  "removal s e = \<lparr>type = SILENCE, start = s, end' = e, content = []\<rparr>"

section \<open>Export (\<^verbatim>\<open>export\<close> and its two paths)\<close>

text \<open>
  What an export run gets from outside the program:
  \<^item> \<open>ffprobe\<close>: the call of lines 304-312. It raises (a missing binary, say), or gives the
    return code together with what \<^verbatim>\<open>float(result.stdout.strip())\<close> yields: a duration
    or a raised \<^verbatim>\<open>ValueError\<close>;
  \<^item> \<open>ffmpeg_encoders\<close>: the standard output of \<^verbatim>\<open>ffmpeg -encoders\<close> (line 355), or an
    exception;
  \<^item> \<open>ffmpeg_run\<close>: the return code of the encoder process for a command line (lines 283-284),
    or an exception;
  \<^item> \<open>cuda_available\<close>: \<^verbatim>\<open>import torch; torch.cuda.is_available()\<close> (lines 379-380);
  \<^item> \<open>open_video\<close>: the duration of \<^verbatim>\<open>mp.VideoFileClip(self.video_path)\<close> (lines 385-386);
  \<^item> \<open>subclip\<close>, \<open>write_videofile\<close>, \<open>close_video\<close>: lines 422, 435-443 and 448, each
    returning or raising;
  \<^item> \<open>float_str\<close>: the text an f-string gives a float (line 335).
\<close>

record export_env =
  ffprobe :: "exn + int \<times> (exn + real)"
  ffmpeg_encoders :: "exn + string"
  ffmpeg_run :: "string list \<Rightarrow> exn + int"
  cuda_available :: "exn + bool"
  open_video :: "exn + real"
  subclip :: "real \<Rightarrow> real \<Rightarrow> exn + unit"
  write_videofile :: "interval list \<Rightarrow> exn + unit"
  close_video :: "exn + unit"
  float_str :: "real \<Rightarrow> string"

subsection \<open>The filter expression\<close>

text \<open>\<^verbatim>\<open>sep.join(xs)\<close>.\<close>

fun join :: "string \<Rightarrow> string list \<Rightarrow> string" where
  "join sep [] = []"
| "join sep [x] = x"
| "join sep (x # y # xs) = x @ sep @ join sep (y # xs)"

text \<open>Line 335: \<^verbatim>\<open>f'between(t,{start},{end})'\<close>.\<close>

definition condition :: "(real \<Rightarrow> string) \<Rightarrow> interval \<Rightarrow> string" where
  "condition fs iv = ''between(t,'' @ fs (fst iv) @ '','' @ fs (snd iv) @ '')''"

text \<open>Lines 333-337.\<close>

definition select_condition :: "(real \<Rightarrow> string) \<Rightarrow> interval list \<Rightarrow> string" where
  "select_condition fs keep_times = join ''+'' (map (condition fs) keep_times)"

text \<open>
  Lines 340-343: the two chains of the filter graph, each around a quoted predicate, and the
  graph the function returns.
\<close>

definition video_chain :: "string \<Rightarrow> string" where
  "video_chain predicate =
     ''[0:v]select='' @ [CHR 0x27] @ predicate @ [CHR 0x27] @ '',setpts=N/FRAME_RATE/TB[v];''"

definition audio_chain :: "string \<Rightarrow> string" where
  "audio_chain predicate =
     ''[0:a]aselect='' @ [CHR 0x27] @ predicate @ [CHR 0x27] @ '',asetpts=N/SR/TB[a]''"

definition filter_complex :: "(real \<Rightarrow> string) \<Rightarrow> interval list \<Rightarrow> string" where
  "filter_complex fs keep_times =
     video_chain (select_condition fs keep_times) @ audio_chain (select_condition fs keep_times)"

text \<open>
  What the encoder does with the predicate. In FFmpeg's expression language
  \<^verbatim>\<open>between(x, min, max)\<close> is 1 if \<open>min \<le> x \<le> max\<close> and 0 otherwise, \<^verbatim>\<open>+\<close> is
  addition, and \<^verbatim>\<open>select\<close> and \<^verbatim>\<open>aselect\<close> pass a frame exactly when the expression
  is not zero at the frame's time \<open>t\<close>.
\<close>

definition between :: "real \<Rightarrow> real \<Rightarrow> real \<Rightarrow> real" where
  "between x lo hi = (if lo \<le> x \<and> x \<le> hi then 1 else 0)"

definition select_value :: "interval list \<Rightarrow> real \<Rightarrow> real" where
  "select_value keep_times t = sum_list (map (\<lambda>iv. between t (fst iv) (snd iv)) keep_times)"

definition selects :: "interval list \<Rightarrow> real \<Rightarrow> bool" where
  "selects keep_times t = (select_value keep_times t \<noteq> 0)"

text \<open>
  \<^verbatim>\<open>_build_ffmpeg_select_expression\<close>, lines 299-349: \<open>None\<close> when the probe raises, exits
  with a nonzero code or prints no number, and when nothing is kept; the sort of line 315
  stays in \<^verbatim>\<open>self.clips_to_remove\<close>.
\<close>

definition build_ffmpeg_select_expression ::
  "export_env \<Rightarrow> VideoProcessor \<Rightarrow> string option \<times> VideoProcessor" where
  "build_ffmpeg_select_expression env s =
     (case ffprobe env of
        Inl e \<Rightarrow> (None, s)
      | Inr (returncode, parsed) \<Rightarrow>
          if returncode \<noteq> 0 then (None, s)
          else
            (case parsed of
               Inl e \<Rightarrow> (None, s)
             | Inr duration \<Rightarrow>
                 let s' = s\<lparr>clips_to_remove := sort_key start (clips_to_remove s)\<rparr>;
                     keep_times = ffmpeg_keep_times (clips_to_remove s) duration
                 in if keep_times = [] then (None, s')
                    else (Some (filter_complex (float_str env) keep_times), s')))"

subsection \<open>Encoder selection\<close>

text \<open>Python's \<^verbatim>\<open>needle in haystack\<close> on strings.\<close>

definition contains :: "string \<Rightarrow> string \<Rightarrow> bool" where
  "contains needle haystack =
     list_ex (\<lambda>i. take (length needle) (drop i haystack) = needle) [0..<Suc (length haystack)]"

text \<open>\<^verbatim>\<open>_check_hardware_acceleration\<close>, lines 351-373.\<close>

definition check_hardware_acceleration :: "export_env \<Rightarrow> string option" where
  "check_hardware_acceleration env =
     (case ffmpeg_encoders env of
        Inl e \<Rightarrow> None
      | Inr encoders \<Rightarrow>
          if contains ''h264_nvenc'' encoders then Some ''h264_nvenc''
          else if contains ''h264_amf'' encoders then Some ''h264_amf''
          else if contains ''h264_qsv'' encoders then Some ''h264_qsv''
          else None)"

text \<open>
  Lines 224-280: the command line of the encoder, for the software encoder (lines 224-239),
  for NVENC (lines 248-262) and for the other hardware encoders (lines 265-279).
\<close>

definition ffmpeg_cmd :: "string \<Rightarrow> string \<Rightarrow> string \<Rightarrow> string option \<Rightarrow> string list" where
  "ffmpeg_cmd path select_expr out hardware_encoder =
     (let cmd = [''ffmpeg'', ''-i'', path, ''-filter_complex'', select_expr,
                 ''-map'', ''[v]'', ''-map'', ''[a]'', ''-c:v'', ''libx264'', ''-c:a'', ''aac'',
                 ''-preset'', ''slower'', ''-crf'', ''16'', ''-pix_fmt'', ''yuv420p'',
                 ''-b:v'', ''20000k'', ''-x264opts'', ''aq-mode=2:aq-strength=1.0'', ''-y'', out]
      in case hardware_encoder of
           None \<Rightarrow> cmd
         | Some encoder \<Rightarrow>
             if encoder = [] then cmd
             else if encoder = ''h264_nvenc'' then
               [''ffmpeg'', ''-i'', path, ''-filter_complex'', select_expr,
                ''-map'', ''[v]'', ''-map'', ''[a]'', ''-c:v'', encoder, ''-c:a'', ''aac'',
                ''-preset'', ''medium'', ''-crf'', ''16'', ''-pix_fmt'', ''yuv420p'',
                ''-b:v'', ''20000k'', ''-y'', out]
             else
               [''ffmpeg'', ''-i'', path, ''-filter_complex'', select_expr,
                ''-map'', ''[v]'', ''-map'', ''[a]'', ''-c:v'', encoder, ''-c:a'', ''aac'',
                ''-preset'', ''slow'', ''-crf'', ''16'', ''-pix_fmt'', ''yuv420p'',
                ''-b:v'', ''20000k'', ''-y'', out])"

subsection \<open>The primary attempt\<close>

text \<open>
  \<^verbatim>\<open>_try_ffmpeg_export\<close>, lines 205-297. Every \<open>Inl\<close> of the environment is an exception
  raised inside the \<^verbatim>\<open>try\<close> block and ends in the \<^verbatim>\<open>return False\<close> of line 297.
\<close>

definition try_ffmpeg_export :: "export_env \<Rightarrow> VideoProcessor \<Rightarrow> bool \<times> VideoProcessor" where
  "try_ffmpeg_export env s0 =
     (let s1 = s0\<lparr>clips_to_remove := sort_key start (clips_to_remove s0)\<rparr> in
      case build_ffmpeg_select_expression env s1 of
        (None, s2) \<Rightarrow> (False, s2)
      | (Some select_expr, s2) \<Rightarrow>
          if select_expr = [] then (False, s2)
          else
            let s3 = progress 20 Ffmpeg_processing s2;
                hardware_encoder = check_hardware_acceleration env;
                s4 = (case hardware_encoder of
                        None \<Rightarrow> s3
                      | Some encoder \<Rightarrow>
                          if encoder = [] then s3 else emit (Status (Using_hardware encoder)) s3);
                cmd = ffmpeg_cmd (video_path s4) select_expr (output_path s4) hardware_encoder
            in (case ffmpeg_run env cmd of
                  Inl e \<Rightarrow> (False, s4)
                | Inr returncode \<Rightarrow>
                    if returncode = 0 then (True, progress 90 Ffmpeg_done s4) else (False, s4)))"

subsection \<open>The fallback\<close>

text \<open>
  Lines 415-428: the loop over \<^verbatim>\<open>enumerate(clips_to_keep_times)\<close> from index \<open>i\<close>; an
  exception of \<^verbatim>\<open>subclip\<close> leaves the loop.
\<close>

fun extract_clips ::
  "export_env \<Rightarrow> nat \<Rightarrow> nat \<Rightarrow> interval list \<Rightarrow> VideoProcessor \<Rightarrow>
   (exn + unit) \<times> VideoProcessor" where
  "extract_clips env total_clips i [] s = (Inr (), s)"
| "extract_clips env total_clips i (iv # rest) s =
     (let progress_val = py_int (30 + (real i / real total_clips) * 60);
          s' = progress progress_val (Processing_segment (i + 1) total_clips) s
      in case subclip env (fst iv) (snd iv) of
           Inl e \<Rightarrow> (Inl e, s')
         | Inr u \<Rightarrow> extract_clips env total_clips (i + 1) rest s')"

text \<open>
  \<^verbatim>\<open>_moviepy_export\<close>, lines 375-455: \<open>Inl e\<close> is the exception that line 455 raises
  again.
\<close>

definition moviepy_export ::
  "export_env \<Rightarrow> VideoProcessor \<Rightarrow> (exn + unit) \<times> VideoProcessor" where
  "moviepy_export env s0 =
     (case cuda_available env of
        Inl e \<Rightarrow> (Inl e, s0)
      | Inr cuda \<Rightarrow>
          let s1 = (if cuda then emit (Status Cuda_detected) s0 else s0) in
          (case open_video env of
             Inl e \<Rightarrow> (Inl e, s1)
           | Inr duration \<Rightarrow>
               let s2 = s1\<lparr>clips_to_remove := sort_key start (clips_to_remove s1)\<rparr>;
                   clips_to_keep_times = moviepy_keep_times (clips_to_remove s1) duration
               in if clips_to_keep_times = [] then (Inr (), emit (Error No_keep_segments) s2)
                  else
                    let s3 = progress 30 Optimizing s2;
                        total_clips = length clips_to_keep_times
                    in (case extract_clips env total_clips 0 clips_to_keep_times s3 of
                          (Inl e, s4) \<Rightarrow> (Inl e, s4)
                        | (Inr u, s4) \<Rightarrow>
                            let s5 = progress 95 Concatenating s4 in
                            (case write_videofile env clips_to_keep_times of
                               Inl e \<Rightarrow> (Inl e, s5)
                             | Inr u' \<Rightarrow>
                                 let s6 = progress 100 Export_done s5 in
                                 (case close_video env of
                                    Inl e \<Rightarrow> (Inl e, s6)
                                  | Inr u'' \<Rightarrow> (Inr (), s6))))))"

subsection \<open>The export run\<close>

text \<open>\<^verbatim>\<open>export\<close>, lines 180-203.\<close>

definition export :: "export_env \<Rightarrow> VideoProcessor \<Rightarrow> VideoProcessor" where
  "export env s0 =
     (let s1 = progress 5 Preparing (s0\<lparr>current_step := 0\<rparr>) in
      case try_ffmpeg_export env s1 of
        (True, s2) \<Rightarrow> emit (Finished_export (output_path s2)) (progress 100 Export_done s2)
      | (False, s2) \<Rightarrow>
          let s3 = emit (Status Fallback) s2 in
          (case moviepy_export env s3 of
             (Inl e, s4) \<Rightarrow> emit (Error (Export_failed e)) s4
           | (Inr u, s4) \<Rightarrow> s4))"

text \<open>
  The processor as \<^verbatim>\<open>main_window.py\<close> prepares it for an export (lines 494-497): a new
  \<^verbatim>\<open>VideoProcessor(self.video_path)\<close> with its clips and its output path set.
\<close>

definition export_processor :: "string \<Rightarrow> Clip list \<Rightarrow> string \<Rightarrow> VideoProcessor" where
  "export_processor path clips out =
     (init path [] (1 / 2))\<lparr>clips_to_remove := clips, output_path := out\<rparr>"

section \<open>Helper notions and example inputs\<close>

text \<open>
  The progress signals of a processor are non-decreasing and none is above \<open>b\<close>: the
  invariant the two runs maintain.
\<close>

definition percents_below :: "int \<Rightarrow> VideoProcessor \<Rightarrow> bool" where
  "percents_below b s = (sorted (percents s) \<and> list_all (\<lambda>p. p \<le> b) (percents s))"

text \<open>The percents of lines 114-115 and of line 416.\<close>

definition seg_percent :: "nat \<Rightarrow> nat \<Rightarrow> int" where
  "seg_percent n j = 30 + (if n > 0 then py_int (40 * (real j / real n)) else 0)"

definition clip_percent :: "nat \<Rightarrow> nat \<Rightarrow> int" where
  "clip_percent n i = py_int (30 + (real i / real n) * 60)"

text \<open>How \<^verbatim>\<open>export\<close> ends after the fallback (lines 200-203).\<close>

definition after_fallback :: "(exn + unit) \<times> VideoProcessor \<Rightarrow> VideoProcessor" where
  "after_fallback r = (case r of (Inl e, s) \<Rightarrow> emit (Error (Export_failed e)) s | (Inr u, s) \<Rightarrow> s)"

fun is_error :: "event \<Rightarrow> bool" where
  "is_error (Error e) = True"
| "is_error ev = False"

text \<open>A token, and collaborators for the examples.\<close>

definition tok :: "real \<Rightarrow> real \<Rightarrow> string \<Rightarrow> Word" where
  "tok s e txt = \<lparr>wstart = s, wend = e, word = txt\<rparr>"

definition demo_analyze_env :: analyze_env where
  "demo_analyze_env =
     \<lparr>extract_audio = Inr (),
      transcribe_count =
        Inr ([\<lparr>words = [tok 0 1 ''a'']\<rparr>, \<lparr>words = [tok (6 / 5) 2 ''b'']\<rparr>], None),
      transcribe =
        Inr ([\<lparr>words = [tok 0 1 ''a'']\<rparr>, \<lparr>words = [tok (6 / 5) 2 ''b'']\<rparr>], None),
      str_strip = (\<lambda>text. text)\<rparr>"

text \<open>
  A transcriber whose first pass yields one segment and whose second pass yields three (its
  decoding samples when a pass falls back to a higher temperature, so two passes over the
  same audio need not agree).
\<close>

definition recount_env :: analyze_env where
  "recount_env =
     \<lparr>extract_audio = Inr (),
      transcribe_count = Inr ([\<lparr>words = [tok 0 3 ''abc'']\<rparr>], None),
      transcribe =
        Inr ([\<lparr>words = [tok 0 1 ''a'']\<rparr>, \<lparr>words = [tok 1 2 ''b'']\<rparr>,
              \<lparr>words = [tok 2 3 ''c'']\<rparr>], None),
      str_strip = (\<lambda>text. text)\<rparr>"

text \<open>
  A host where the probe reports 6 seconds, the encoder list names AMF and QSV, the encoder
  process cannot be started, and the fallback library works.
\<close>

definition demo_env :: export_env where
  "demo_env =
     \<lparr>ffprobe = Inr (0, Inr 6),
      ffmpeg_encoders = Inr '' V..... h264_amf  V..... h264_qsv'',
      ffmpeg_run = (\<lambda>cmd. Inl (Exception ''No such file or directory'')),
      cuda_available = Inr False,
      open_video = Inr 6,
      subclip = (\<lambda>s e. Inr ()),
      write_videofile = (\<lambda>keep. Inr ()),
      close_video = Inr (),
      float_str = (\<lambda>r. ''0.0'')\<rparr>"

section \<open>The interval reducer\<close>

lemma removal_sel [simp]:
  "start (removal s e) = s" "end' (removal s e) = e"
  by (simp_all add: removal_def)

lemma ffmpeg_keep_step_pair:
  "ffmpeg_keep_step (acc, L) c =
     (if start c > L then acc @ [(L, start c)] else acc, max L (end' c))"
  by (simp add: ffmpeg_keep_step_def)

lemma foldl_keep_acc:
  "foldl ffmpeg_keep_step (acc, L) cs =
     (acc @ fst (foldl ffmpeg_keep_step ([], L) cs), snd (foldl ffmpeg_keep_step ([], L) cs))"
proof (induction cs arbitrary: acc L)
  case Nil
  show ?case by simp
next
  case (Cons c cs)
  show ?case
    using Cons.IH [of "acc @ [(L, start c)]" "max L (end' c)"]
      Cons.IH [of "[(L, start c)]" "max L (end' c)"] Cons.IH [of acc "max L (end' c)"]
    by (simp add: ffmpeg_keep_step_pair)
qed

lemma walk_Nil: "walk L [] D = (if L < D then [(L, D)] else [])"
  by (simp add: walk_def)

lemma walk_Cons:
  "walk L (c # cs) D =
     (if start c > L then (L, start c) # walk (max L (end' c)) cs D
      else walk (max L (end' c)) cs D)"
  by (simp add: walk_def ffmpeg_keep_step_pair foldl_keep_acc [of "[(L, start c)]"] split: prod.splits)

lemma ffmpeg_keep_times_walk: "ffmpeg_keep_times clips D = walk 0 (sort_key start clips) D"
  by (simp add: ffmpeg_keep_times_def walk_def)


lemma walk_order:
  "\<forall>c\<in>set cs. start c \<le> end' c \<Longrightarrow>
   sorted_wrt (\<lambda>a b. snd a \<le> fst b) (walk L cs D) \<and>
   (\<forall>iv\<in>set (walk L cs D). L \<le> fst iv \<and> fst iv < snd iv)"
proof (induction cs arbitrary: L)
  case Nil
  show ?case by (simp add: walk_Nil)
next
  case (Cons c cs)
  from Cons.prems have se: "start c \<le> end' c" and rest: "\<forall>c\<in>set cs. start c \<le> end' c"
    by simp_all
  note IH = Cons.IH [OF rest, of "max L (end' c)"]
  show ?case
  proof (cases "start c > L")
    case True
    with se IH show ?thesis by (fastforce simp: walk_Cons)
  next
    case False
    with IH show ?thesis by (fastforce simp: walk_Cons)
  qed
qed

lemma inter_clip_hi: "clip_hi c (inter a b) = inter (clip_hi c a) (clip_hi c b)"
  by (auto simp: clip_hi_def inter_def min_def)

lemma inter_clip_lo: "clip_lo c (inter a b) = inter (clip_lo c a) (clip_lo c b)"
  by (auto simp: clip_lo_def inter_def max_def)

lemma length_split:
  "max 0 (snd a - fst a) =
   max 0 (snd (clip_hi c a) - fst (clip_hi c a)) + max 0 (snd (clip_lo c a) - fst (clip_lo c a))"
  by (auto simp: clip_hi_def clip_lo_def max_def min_def)

lemma union_measure_split:
  "union_measure xs = union_measure (map (clip_hi c) xs) + union_measure (map (clip_lo c) xs)"
proof (induction xs rule: union_measure.induct)
  case 1
  show ?case by simp
next
  case (2 a xs)
  have h: "map (clip_hi c) (map (inter a) xs) = map (inter (clip_hi c a)) (map (clip_hi c) xs)"
    by (simp add: inter_clip_hi)
  have l: "map (clip_lo c) (map (inter a) xs) = map (inter (clip_lo c a)) (map (clip_lo c) xs)"
    by (simp add: inter_clip_lo)
  have A: "union_measure (map (clip_hi c) (a # xs)) =
      max 0 (snd (clip_hi c a) - fst (clip_hi c a)) + union_measure (map (clip_hi c) xs)
        - union_measure (map (inter (clip_hi c a)) (map (clip_hi c) xs))"
    by (simp only: list.map union_measure.simps)
  have B: "union_measure (map (clip_lo c) (a # xs)) =
      max 0 (snd (clip_lo c a) - fst (clip_lo c a)) + union_measure (map (clip_lo c) xs)
        - union_measure (map (inter (clip_lo c a)) (map (clip_lo c) xs))"
    by (simp only: list.map union_measure.simps)
  have C: "union_measure (a # xs) =
      max 0 (snd a - fst a) + union_measure xs - union_measure (map (inter a) xs)"
    by (simp only: union_measure.simps)
  note I1 = "2.IH"(1)
  note I2 = "2.IH"(2) [unfolded h l]
  show ?case
    unfolding A B C using I1 I2 length_split [of a c] by linarith
qed

lemma inter_inter_swap: "inter (inter a b) (inter a x) = inter (inter b a) (inter b x)"
  by (auto simp: inter_def max_def min_def)

lemma union_measure_swap: "union_measure (a # b # xs) = union_measure (b # a # xs)"
proof -
  have 1: "map (inter (inter a b)) (map (inter a) xs) = map (inter (inter b a)) (map (inter b) xs)"
    by (simp add: inter_inter_swap)
  have 2: "max 0 (snd (inter a b) - fst (inter a b)) = max 0 (snd (inter b a) - fst (inter b a))"
    by (simp add: inter_def max.commute min.commute)
  have "union_measure (a # b # xs) =
      max 0 (snd a - fst a) + (max 0 (snd b - fst b) + union_measure xs
          - union_measure (map (inter b) xs))
        - (max 0 (snd (inter a b) - fst (inter a b)) + union_measure (map (inter a) xs)
          - union_measure (map (inter (inter a b)) (map (inter a) xs)))"
    by (simp only: union_measure.simps list.map)
  moreover have "union_measure (b # a # xs) =
      max 0 (snd b - fst b) + (max 0 (snd a - fst a) + union_measure xs
          - union_measure (map (inter a) xs))
        - (max 0 (snd (inter b a) - fst (inter b a)) + union_measure (map (inter b) xs)
          - union_measure (map (inter (inter b a)) (map (inter b) xs)))"
    by (simp only: union_measure.simps list.map)
  ultimately show ?thesis
    unfolding 1 2 by linarith
qed

lemma union_measure_move_aux:
  "\<forall>xs ys a. length xs = n \<longrightarrow> union_measure (xs @ a # ys) = union_measure (a # xs @ ys)"
proof (induction n)
  case 0
  show ?case by simp
next
  case (Suc n)
  show ?case
  proof (intro allI impI)
    fix xs :: "interval list" and ys a
    assume len: "length xs = Suc n"
    then obtain x xs' where xs: "xs = x # xs'" and len': "length xs' = n"
      by (cases xs) auto
    have "union_measure (xs @ a # ys) =
          max 0 (snd x - fst x) + union_measure (xs' @ a # ys)
            - union_measure (map (inter x) xs' @ inter x a # map (inter x) ys)"
      by (simp add: xs)
    also have "union_measure (xs' @ a # ys) = union_measure (a # xs' @ ys)"
      using Suc.IH len' by blast
    also have "union_measure (map (inter x) xs' @ inter x a # map (inter x) ys) =
          union_measure (inter x a # map (inter x) xs' @ map (inter x) ys)"
      using Suc.IH len' by (metis length_map)
    finally have "union_measure (xs @ a # ys) = union_measure (x # a # xs' @ ys)"
      by simp
    then show "union_measure (xs @ a # ys) = union_measure (a # xs @ ys)"
      by (simp only: xs union_measure_swap [of x a] append_Cons)
  qed
qed

lemma union_measure_move: "union_measure (xs @ a # ys) = union_measure (a # xs @ ys)"
  using union_measure_move_aux by blast

lemma union_measure_mset_aux:
  "\<forall>xs ys. length xs = n \<longrightarrow> mset xs = mset ys \<longrightarrow> union_measure xs = union_measure ys"
proof (induction n)
  case 0
  show ?case by auto
next
  case (Suc n)
  show ?case
  proof (intro allI impI)
    fix xs ys :: "interval list"
    assume len: "length xs = Suc n" and ms: "mset xs = mset ys"
    then obtain x xs' where xs: "xs = x # xs'" and len': "length xs' = n"
      by (cases xs) auto
    from ms xs have "x \<in> set ys" by (metis list.set_intros(1) mset_eq_setD)
    then obtain ys1 ys2 where ys: "ys = ys1 @ x # ys2" by (meson split_list)
    from ms xs ys have ms': "mset xs' = mset (ys1 @ ys2)" by simp
    then have ms'': "mset (map (inter x) xs') = mset (map (inter x) (ys1 @ ys2))"
      by (metis mset_map)
    have "union_measure ys = union_measure (x # ys1 @ ys2)"
      by (simp only: ys union_measure_move)
    also have "\<dots> = max 0 (snd x - fst x) + union_measure (ys1 @ ys2)
        - union_measure (map (inter x) (ys1 @ ys2))"
      by simp
    also have "union_measure (ys1 @ ys2) = union_measure xs'"
      using Suc.IH len' ms' by metis
    also have "union_measure (map (inter x) (ys1 @ ys2)) = union_measure (map (inter x) xs')"
      using Suc.IH len' ms'' by (metis length_map)
    finally show "union_measure xs = union_measure ys"
      by (simp add: xs)
  qed
qed

lemma union_measure_mset: "mset xs = mset ys \<Longrightarrow> union_measure xs = union_measure ys"
  using union_measure_mset_aux by blast


lemma union_measure_Cons_least:
  assumes "\<forall>x\<in>set xs. fst a \<le> fst x"
  shows "union_measure (a # xs) =
         max 0 (snd a - fst a) + union_measure (map (clip_lo (snd a)) xs)"
proof -
  from assms have "map (inter a) xs = map (clip_hi (snd a)) xs"
    by (auto simp: inter_def clip_hi_def max_def min_def)
  then have "union_measure (a # xs) =
      max 0 (snd a - fst a) + union_measure xs - union_measure (map (clip_hi (snd a)) xs)"
    by (simp only: union_measure.simps)
  with union_measure_split [of xs "snd a"] show ?thesis by linarith
qed

lemma clip_lo_clip_lo: "clip_lo e (clip_lo L x) = clip_lo (max L e) x"
  by (auto simp: clip_lo_def max_def)

lemma total_duration_simps:
  "total_duration [] = 0"
  "total_duration (iv # ivs) = (snd iv - fst iv) + total_duration ivs"
  by (simp_all add: total_duration_def)

lemma walk_measure:
  assumes "sorted (map start cs)" and "\<forall>c\<in>set cs. start c \<le> end' c \<and> end' c \<le> D"
    and "L \<le> D"
  shows "total_duration (walk L cs D) + union_measure (map (clip_lo L) (map clip_interval cs))
         = D - L"
  using assms
proof (induction cs arbitrary: L)
  case Nil
  then show ?case by (simp add: walk_Nil total_duration_simps)
next
  case (Cons c cs)
  let ?L' = "max L (end' c)"
  let ?ivs = "map clip_interval cs"
  from Cons.prems have srt: "sorted (map start cs)" and least: "\<forall>x\<in>set cs. start c \<le> start x"
    and se: "start c \<le> end' c" and eD: "end' c \<le> D"
    and rest: "\<forall>c\<in>set cs. start c \<le> end' c \<and> end' c \<le> D"
    by simp_all
  from eD Cons.prems(3) have L': "?L' \<le> D" by simp
  note IH = Cons.IH [OF srt rest L']
  have "\<forall>x\<in>set (map (clip_lo L) ?ivs). fst (clip_lo L (clip_interval c)) \<le> fst x"
    using least by (auto simp: clip_lo_def clip_interval_def)
  from union_measure_Cons_least [OF this]
  have "union_measure (clip_lo L (clip_interval c) # map (clip_lo L) ?ivs) =
      max 0 (snd (clip_lo L (clip_interval c)) - fst (clip_lo L (clip_interval c)))
        + union_measure (map (clip_lo (snd (clip_lo L (clip_interval c)))) (map (clip_lo L) ?ivs))" .
  moreover have "fst (clip_lo L (clip_interval c)) = max (start c) L"
    and "snd (clip_lo L (clip_interval c)) = end' c"
    by (simp_all add: clip_lo_def clip_interval_def)
  moreover have "map (clip_lo (end' c)) (map (clip_lo L) ?ivs) = map (clip_lo ?L') ?ivs"
    by (simp add: clip_lo_clip_lo)
  ultimately have um: "union_measure (map (clip_lo L) (map clip_interval (c # cs))) =
      max 0 (end' c - max (start c) L) + union_measure (map (clip_lo ?L') ?ivs)"
    by (simp only: list.map)
  show ?case
  proof (cases "start c > L")
    case True
    with se IH um show ?thesis
      by (simp add: walk_Cons total_duration_simps max_def split: if_splits)
  next
    case False
    with IH um show ?thesis
      by (simp add: walk_Cons max_def split: if_splits)
  qed
qed

lemma clip_lo_id: "c \<le> fst x \<Longrightarrow> clip_lo c x = x"
  by (simp add: clip_lo_def max_def)

lemma covered_simps:
  "covered [] t = False"
  "covered (iv # ivs) t = ((fst iv \<le> t \<and> t < snd iv) \<or> covered ivs t)"
  by (simp_all add: covered_def)

lemma covered_iff: "covered ivs t \<longleftrightarrow> (\<exists>iv\<in>set ivs. fst iv \<le> t \<and> t < snd iv)"
  by (simp add: covered_def list_ex_iff)

lemma clip_interval_sel:
  "fst (clip_interval c) = start c" "snd (clip_interval c) = end' c"
  by (simp_all add: clip_interval_def)

lemma walk_covered:
  assumes "sorted (map start cs)" and "\<forall>c\<in>set cs. start c \<le> end' c" and "L \<le> t" and "t < D"
  shows "covered (walk L cs D) t \<longleftrightarrow> \<not> covered (map clip_interval cs) t"
  using assms
proof (induction cs arbitrary: L)
  case Nil
  then show ?case by (simp add: walk_Nil covered_simps)
next
  case (Cons c cs)
  let ?L' = "max L (end' c)"
  from Cons.prems have srt: "sorted (map start cs)" and least: "\<forall>x\<in>set cs. start c \<le> start x"
    and se: "start c \<le> end' c" and rest: "\<forall>c\<in>set cs. start c \<le> end' c"
    by simp_all
  from walk_order [OF rest, of ?L' D]
  have above: "\<forall>iv\<in>set (walk ?L' cs D). ?L' \<le> fst iv" by blast
  show ?case
  proof (cases "?L' \<le> t")
    case True
    from Cons.IH [OF srt rest True Cons.prems(4)]
    have IH: "covered (walk ?L' cs D) t \<longleftrightarrow> \<not> covered (map clip_interval cs) t" .
    from True se have "end' c \<le> t" and "start c \<le> t"
      by auto
    with IH show ?thesis
      by (auto simp: walk_Cons covered_simps clip_interval_sel)
  next
    case False
    with Cons.prems(3) have t: "t < end' c" "L \<le> t" by auto
    from False above have nk: "\<not> covered (walk ?L' cs D) t"
      by (fastforce simp: covered_iff)
    show ?thesis
    proof (cases "start c \<le> t")
      case True
      with t nk show ?thesis
        by (auto simp: walk_Cons covered_simps clip_interval_sel)
    next
      case f: False
      with least have "\<not> covered (map clip_interval cs) t"
        by (fastforce simp: covered_iff clip_interval_sel)
      with f t nk show ?thesis
        by (auto simp: walk_Cons covered_simps clip_interval_sel)
    qed
  qed
qed

lemma covered_mset: "mset xs = mset ys \<Longrightarrow> covered xs t = covered ys t"
  by (simp add: covered_iff) (metis mset_eq_setD)

lemma keep_times_complement:
  assumes "\<forall>c\<in>set clips. start c \<le> end' c" and "0 \<le> t" and "t < D"
  shows "covered (ffmpeg_keep_times clips D) t \<longleftrightarrow> \<not> covered (map clip_interval clips) t"
proof -
  let ?cs = "sort_key start clips"
  have "sorted (map start ?cs)" and "\<forall>c\<in>set ?cs. start c \<le> end' c"
    using assms(1) by simp_all
  from walk_covered [OF this assms(2,3)]
  have "covered (walk 0 ?cs D) t \<longleftrightarrow> \<not> covered (map clip_interval ?cs) t" .
  moreover have "covered (map clip_interval ?cs) t = covered (map clip_interval clips) t"
    by (rule covered_mset) simp
  ultimately show ?thesis by (simp add: ffmpeg_keep_times_walk)
qed

text \<open>
  C1. For removal clips that all satisfy \<open>0 \<le> start \<le> end \<le> D\<close> (and a duration
  \<open>D \<ge> 0\<close>), the keep intervals of \<^verbatim>\<open>_build_ffmpeg_select_expression\<close> are pairwise
  non-overlapping (each ends no later than every later one starts), non-empty and sorted by
  start, and their total duration plus the measure of the union of the removal clips is \<open>D\<close>;
  an instant of \<open>[0, D)\<close> lies in a keep interval exactly when it lies in no removal clip.
\<close>

theorem keep_times_partition:
  assumes "0 \<le> D" and "\<forall>c\<in>set clips. 0 \<le> start c \<and> start c \<le> end' c \<and> end' c \<le> D"
  shows "sorted_wrt (\<lambda>a b. snd a \<le> fst b) (ffmpeg_keep_times clips D) \<and>
         (\<forall>iv\<in>set (ffmpeg_keep_times clips D). 0 \<le> fst iv \<and> fst iv < snd iv) \<and>
         sorted (map fst (ffmpeg_keep_times clips D)) \<and>
         total_duration (ffmpeg_keep_times clips D)
           + union_measure (map clip_interval clips) = D \<and>
         (\<forall>t. 0 \<le> t \<and> t < D \<longrightarrow>
            (covered (ffmpeg_keep_times clips D) t \<longleftrightarrow>
             \<not> covered (map clip_interval clips) t))"
proof -
  let ?cs = "sort_key start clips"
  from assms(2) have b: "\<forall>c\<in>set ?cs. 0 \<le> start c \<and> start c \<le> end' c \<and> end' c \<le> D"
    by simp
  then have ord: "sorted_wrt (\<lambda>a b. snd a \<le> fst b) (walk 0 ?cs D) \<and>
      (\<forall>iv\<in>set (walk 0 ?cs D). 0 \<le> fst iv \<and> fst iv < snd iv)"
    using walk_order [of ?cs 0 D] by blast
  then have "sorted_wrt (\<lambda>a b. fst a \<le> fst b) (walk 0 ?cs D)"
    by (auto elim!: sorted_wrt_mono_rel [rotated])
  then have srt: "sorted (map fst (walk 0 ?cs D))"
    by (simp add: sorted_map)
  have id: "map (clip_lo 0) (map clip_interval ?cs) = map clip_interval ?cs"
    using b by (auto simp: clip_lo_id clip_interval_def)
  have "sorted (map start ?cs)" and "\<forall>c\<in>set ?cs. start c \<le> end' c \<and> end' c \<le> D"
    using b by simp_all
  from walk_measure [OF this assms(1)]
  have "total_duration (walk 0 ?cs D) + union_measure (map clip_interval ?cs) = D"
    unfolding id by simp
  moreover have "union_measure (map clip_interval ?cs) = union_measure (map clip_interval clips)"
    by (rule union_measure_mset) simp
  moreover have "\<forall>t. 0 \<le> t \<and> t < D \<longrightarrow>
      (covered (ffmpeg_keep_times clips D) t \<longleftrightarrow> \<not> covered (map clip_interval clips) t)"
    using keep_times_complement [of clips _ D] assms(2) by blast
  ultimately show ?thesis
    using ord srt by (simp add: ffmpeg_keep_times_walk)
qed


theorem keep_times_partition_witness:
  "ffmpeg_keep_times [removal 1 3, removal 2 4] 6 = [(0, 1), (4, 6)] \<and>
   total_duration (ffmpeg_keep_times [removal 1 3, removal 2 4] 6)
     + union_measure (map clip_interval [removal 1 3, removal 2 4]) = 6"
proof -
  have D: "0 \<le> (6::real)" by simp
  have b: "\<forall>c\<in>set [removal 1 3, removal 2 4].
      0 \<le> start c \<and> start c \<le> end' c \<and> end' c \<le> 6"
    by simp
  have "ffmpeg_keep_times [removal 1 3, removal 2 4] 6 = [(0, 1), (4, 6)]"
    by (simp add: ffmpeg_keep_times_def ffmpeg_keep_step_def)
  with keep_times_partition [OF D b] show ?thesis by blast
qed

text \<open>
  C2. The two export paths do not compute the same keep intervals: for the removal clips
  \<open>(1, 5)\<close> and \<open>(2, 3)\<close> of a medium of duration 6 the primary path keeps
  \<open>(0, 1), (5, 6)\<close>, the fallback path keeps \<open>(0, 1), (3, 6)\<close>.
\<close>

theorem keep_times_paths_differ:
  "ffmpeg_keep_times [removal 1 5, removal 2 3] 6 = [(0, 1), (5, 6)] \<and>
   moviepy_keep_times [removal 1 5, removal 2 3] 6 = [(0, 1), (3, 6)]"
  by (simp add: ffmpeg_keep_times_def moviepy_keep_times_def ffmpeg_keep_step_def
      moviepy_keep_step_def)

section \<open>The clip detector and the progress signals\<close>


lemma tok_sel [simp]: "wstart (tok s e txt) = s" "wend (tok s e txt) = e" "word (tok s e txt) = txt"
  by (simp_all add: tok_def)

lemma word_step_pair:
  "word_step sp f th (cf, l) w =
     ((if wstart w - l > th
       then cf @ [\<lparr>type = SILENCE, start = l, end' = wstart w, content = []\<rparr>] else cf)
      @ (if sp (word w) \<in> set f
         then [\<lparr>type = FILLER, start = wstart w, end' = wend w, content = sp (word w)\<rparr>]
         else []),
      wend w)"
  by (simp add: word_step_def Let_def)

lemma detect_Nil: "detect sp f th [] = []" "last_word_end_after sp f th [] = 0"
  by (simp_all add: detect_def last_word_end_after_def)

lemma detect_snoc:
  "detect sp f th (ws @ [w]) =
     fst (word_step sp f th (detect sp f th ws, last_word_end_after sp f th ws) w)"
  "last_word_end_after sp f th (ws @ [w]) =
     snd (word_step sp f th (detect sp f th ws, last_word_end_after sp f th ws) w)"
  by (simp_all add: detect_def last_word_end_after_def)

lemma last_word_end_after_snoc: "last_word_end_after sp f th (ws @ [w]) = wend w"
  by (simp add: detect_snoc word_step_pair)

lemma silence_clips_exceed:
  "\<forall>c\<in>set (detect sp f th ws). type c = SILENCE \<longrightarrow> end' c - start c > th"
proof (induction ws rule: rev_induct)
  case Nil
  show ?case by (simp add: detect_Nil)
next
  case (snoc w ws)
  then show ?case by (auto simp: detect_snoc word_step_pair)
qed

lemma no_clips:
  assumes "\<forall>i<length ws. wstart (ws ! i) - last_word_end_after sp f th (take i ws) \<le> th"
    and "\<forall>w\<in>set ws. sp (word w) \<notin> set f"
  shows "detect sp f th ws = []"
  using assms
proof (induction ws rule: rev_induct)
  case Nil
  show ?case by (simp add: detect_Nil)
next
  case (snoc w ws)
  have "\<forall>i<length ws. wstart (ws ! i) - last_word_end_after sp f th (take i ws) \<le> th"
  proof (intro allI impI)
    fix i assume i: "i < length ws"
    with snoc.prems(1) have "wstart ((ws @ [w]) ! i) - last_word_end_after sp f th (take i (ws @ [w])) \<le> th"
      by simp
    with i show "wstart (ws ! i) - last_word_end_after sp f th (take i ws) \<le> th"
      by (simp add: nth_append)
  qed
  with snoc have IH: "detect sp f th ws = []" by simp
  have "length ws < length (ws @ [w])" by simp
  with snoc.prems(1) have "wstart ((ws @ [w]) ! length ws)
      - last_word_end_after sp f th (take (length ws) (ws @ [w])) \<le> th"
    by blast
  then have "wstart w - last_word_end_after sp f th ws \<le> th" by simp
  moreover from snoc.prems(2) have "sp (word w) \<notin> set f" by simp
  ultimately show ?case by (simp add: detect_snoc word_step_pair IH)
qed

lemma progress_fields [simp]:
  "filler_words (progress p l s) = filler_words s"
  "silence_threshold (progress p l s) = silence_threshold s"
  "signals (progress p l s) = signals s @ [Progress p l]"
  "clips_to_remove (progress p l s) = clips_to_remove s"
  "video_path (progress p l s) = video_path s"
  "output_path (progress p l s) = output_path s"
  by (simp_all add: progress_def emit_def)

lemma emit_fields [simp]:
  "filler_words (emit e s) = filler_words s"
  "silence_threshold (emit e s) = silence_threshold s"
  "signals (emit e s) = signals s @ [e]"
  "clips_to_remove (emit e s) = clips_to_remove s"
  "video_path (emit e s) = video_path s"
  "output_path (emit e s) = output_path s"
  by (simp_all add: emit_def)

lemma segment_step_pair:
  "segment_step sp n (s, cf, l, k) seg =
     (let s' = progress (30 + (if n > 0 then py_int (40 * (real (k + 1) / real n)) else 0))
                 (Identifying (k + 1) n) s;
          r = foldl (word_step sp (filler_words s) (silence_threshold s)) (cf, l) (words seg)
      in (s', fst r, snd r, k + 1))"
  by (simp add: segment_step_def Let_def split: prod.splits)

lemma foldl_segment_step_words:
  "\<exists>s'. foldl (segment_step sp n) (s, cf, l, k) segs =
     (s', fst (foldl (word_step sp (filler_words s) (silence_threshold s)) (cf, l) (concat (map words segs))),
      snd (foldl (word_step sp (filler_words s) (silence_threshold s)) (cf, l) (concat (map words segs))),
      k + length segs) \<and> filler_words s' = filler_words s \<and> silence_threshold s' = silence_threshold s"
proof (induction segs arbitrary: s cf l k)
  case Nil
  show ?case by simp
next
  case (Cons seg segs)
  show ?case
    using Cons.IH [of "progress (30 + (if n > 0 then py_int (40 * (real (k + 1) / real n)) else 0))
                 (Identifying (k + 1) n) s"
        "fst (foldl (word_step sp (filler_words s) (silence_threshold s)) (cf, l) (words seg))"
        "snd (foldl (word_step sp (filler_words s) (silence_threshold s)) (cf, l) (words seg))" "k + 1"]
    by (auto simp: segment_step_pair Let_def)
qed

lemma analyze_finished:
  assumes "extract_audio env = Inr u" "transcribe_count env = Inr (counted, None)"
    "transcribe env = Inr (segments, None)"
  shows "last (signals (analyze env s)) =
     Finished (detect (str_strip env) (filler_words s) (silence_threshold s)
       (concat (map words segments)))"
proof -
  let ?s2 = "progress 30 Transcribing (progress 10 Extracting_audio (s\<lparr>current_step := 0\<rparr>))"
  from foldl_segment_step_words [of "str_strip env" "length counted" ?s2 "[]" 0 0 segments]
  obtain s' where "foldl (segment_step (str_strip env) (length counted)) (?s2, [], 0, 0) segments =
     (s', detect (str_strip env) (filler_words s) (silence_threshold s) (concat (map words segments)),
      last_word_end_after (str_strip env) (filler_words s) (silence_threshold s)
        (concat (map words segments)),
      length segments)"
    by (auto simp: detect_def last_word_end_after_def)
  with assms show ?thesis
    by (simp add: analyze_def Let_def)
qed



lemma percents_simps [simp]:
  "percents (progress p l s) = percents s @ [p]"
  "percents (emit e s) = percents s @ percent_of e"
  "percents (s\<lparr>clips_to_remove := cs\<rparr>) = percents s"
  "percents (s\<lparr>current_step := k\<rparr>) = percents s"
  "percents (s\<lparr>output_path := out\<rparr>) = percents s"
  by (simp_all add: percents_def progress_def emit_def)

lemma percents_init [simp]: "percents (init path f th) = []"
  by (simp add: percents_def init_def)

lemma percents_below_progress:
  "percents_below b s \<Longrightarrow> b \<le> p \<Longrightarrow> percents_below p (progress p l s)"
  by (auto simp: percents_below_def sorted_append list_all_iff)

lemma percents_below_emit [simp]:
  "percents_below b (emit (Status m) s) = percents_below b s"
  "percents_below b (emit (Error e) s) = percents_below b s"
  "percents_below b (emit (Finished cs) s) = percents_below b s"
  "percents_below b (emit (Finished_export out) s) = percents_below b s"
  by (simp_all add: percents_below_def)

lemma percents_below_update [simp]:
  "percents_below b (s\<lparr>clips_to_remove := cs\<rparr>) = percents_below b s"
  "percents_below b (s\<lparr>current_step := k\<rparr>) = percents_below b s"
  by (simp_all add: percents_below_def)

lemma percents_below_mono: "percents_below b s \<Longrightarrow> b \<le> b' \<Longrightarrow> percents_below b' s"
  by (auto simp: percents_below_def list_all_iff)

lemma percents_below_sorted: "percents_below b s \<Longrightarrow> sorted (percents s)"
  by (simp add: percents_below_def)

lemma py_int_mono: "x \<le> y \<Longrightarrow> py_int x \<le> py_int y"
proof -
  assume xy: "x \<le> y"
  show ?thesis
  proof (cases "0 \<le> x")
    case True
    with xy show ?thesis by (simp add: py_int_def floor_mono)
  next
    case False
    show ?thesis
    proof (cases "0 \<le> y")
      case True
      from False have "py_int x \<le> 0" by (simp add: py_int_def ceiling_le_zero)
      moreover from True have "0 \<le> py_int y" by (simp add: py_int_def)
      ultimately show ?thesis by (rule order_trans)
    next
      case y: False
      with False xy show ?thesis by (simp add: py_int_def ceiling_mono)
    qed
  qed
qed

lemma py_int_of_int [simp]: "py_int (of_int k) = k"
  by (simp add: py_int_def)

lemma seg_percent_mono: "i \<le> j \<Longrightarrow> seg_percent n i \<le> seg_percent n j"
  by (auto simp: seg_percent_def intro!: py_int_mono divide_right_mono)

lemma seg_percent_ge: "30 \<le> seg_percent n j"
proof -
  have "py_int 0 \<le> py_int (40 * (real j / real n))"
    by (rule py_int_mono) simp
  then show ?thesis by (simp add: seg_percent_def py_int_def)
qed

lemma seg_percent_le: "j \<le> n \<Longrightarrow> seg_percent n j \<le> 70"
proof (cases "n > 0")
  case False
  then show ?thesis by (simp add: seg_percent_def)
next
  case True
  assume "j \<le> n"
  with True have "40 * (real j / real n) \<le> of_int 40"
    by (simp add: divide_le_eq)
  from py_int_mono [OF this] True show ?thesis
    by (simp add: seg_percent_def del: of_int_numeral)
qed

lemma segment_step_seg_percent:
  "segment_step sp n (s, cf, l, k) seg =
     (progress (seg_percent n (Suc k)) (Identifying (Suc k) n) s,
      fst (foldl (word_step sp (filler_words s) (silence_threshold s)) (cf, l) (words seg)),
      snd (foldl (word_step sp (filler_words s) (silence_threshold s)) (cf, l) (words seg)),
      Suc k)"
  by (simp add: segment_step_pair Let_def seg_percent_def)

lemma foldl_segment_step_percents:
  "percents_below (seg_percent n k) s \<Longrightarrow>
   percents_below (seg_percent n (k + length segs))
     (fst (foldl (segment_step sp n) (s, cf, l, k) segs))"
proof (induction segs arbitrary: s cf l k)
  case Nil
  then show ?case by simp
next
  case (Cons seg segs)
  let ?s' = "progress (seg_percent n (Suc k)) (Identifying (Suc k) n) s"
  have "seg_percent n k \<le> seg_percent n (Suc k)"
    by (rule seg_percent_mono) simp
  from percents_below_progress [OF Cons.prems this]
  have "percents_below (seg_percent n (Suc k)) ?s'" .
  from Cons.IH [OF this] show ?case
    by (simp only: foldl.simps segment_step_seg_percent length_Cons add_Suc_right add_Suc)
qed

lemma analyze_percents_below:
  assumes "percents_below 10 s"
    and "\<forall>counted segments raised.
           transcribe_count env = Inr (counted, None) \<and> transcribe env = Inr (segments, raised)
           \<longrightarrow> length segments \<le> length counted"
  shows "percents_below 100 (analyze env s)"
proof -
  let ?s1 = "progress 10 Extracting_audio (s\<lparr>current_step := 0\<rparr>)"
  let ?s2 = "progress 30 Transcribing ?s1"
  from assms(1) have "percents_below 10 (s\<lparr>current_step := 0\<rparr>)" by simp
  from percents_below_progress [OF this, of 10] have s1: "percents_below 10 ?s1" by simp
  from percents_below_progress [OF this, of 30] have s2: "percents_below 30 ?s2" by simp
  from s1 s2 have s1': "percents_below 100 ?s1" and s2': "percents_below 100 ?s2"
    by (auto intro: percents_below_mono)
  show ?thesis
  proof (cases "extract_audio env")
    case (Inl e)
    with s1' show ?thesis by (simp add: analyze_def Let_def)
  next
    case ea: (Inr u)
    show ?thesis
    proof (cases "transcribe_count env")
      case (Inl e)
      with ea s2' show ?thesis by (simp add: analyze_def Let_def)
    next
      case tc: (Inr g)
      obtain counted raised1 where g: "g = (counted, raised1)" by (cases g)
      show ?thesis
      proof (cases raised1)
        case (Some e)
        with ea tc g s2' show ?thesis by (simp add: analyze_def Let_def)
      next
        case None
        show ?thesis
        proof (cases "transcribe env")
          case (Inl e)
          with ea tc g None s2' show ?thesis by (simp add: analyze_def Let_def)
        next
          case tr: (Inr h)
          obtain segments raised where h: "h = (segments, raised)" by (cases h)
          from assms(2) tc g None tr h have len: "length segments \<le> length counted" by blast
          let ?n = "length counted"
          obtain s3 cf l k
            where f: "foldl (segment_step (str_strip env) ?n) (?s2, [], 0, 0) segments = (s3, cf, l, k)"
            by (cases "foldl (segment_step (str_strip env) ?n) (?s2, [], 0, 0) segments") auto
          from s2 have "percents_below (seg_percent ?n 0) ?s2"
            by (rule percents_below_mono) (rule seg_percent_ge)
          from foldl_segment_step_percents [OF this, of segments "str_strip env" "[]" 0] f
          have s3: "percents_below (seg_percent ?n (length segments)) s3"
            by simp
          from percents_below_progress [OF this, of 100] seg_percent_le [OF len]
          have fin: "percents_below 100 (progress 100 Analysis_done s3)"
            by simp
          from s3 seg_percent_le [OF len] have "percents_below 100 s3"
            by (auto intro: percents_below_mono)
          with fin ea tc g None tr h f show ?thesis
            by (simp add: analyze_def Let_def split: option.splits)
        qed
      qed
    qed
  qed
qed


lemma build_signals [simp]:
  "signals (snd (build_ffmpeg_select_expression env s)) = signals s"
  by (simp add: build_ffmpeg_select_expression_def Let_def split: sum.splits prod.splits)

lemma build_percents_below [simp]:
  "percents_below b (snd (build_ffmpeg_select_expression env s)) = percents_below b s"
  by (simp add: percents_below_def percents_def)

lemma percents_below_progress_iff:
  "percents_below b (progress p l s) \<longleftrightarrow> percents_below p s \<and> p \<le> b"
  by (auto simp: percents_below_def sorted_append list_all_iff)

lemma try_ffmpeg_export_percents_below:
  assumes "percents_below 20 s"
  shows "percents_below 90 (snd (try_ffmpeg_export env s)) \<and>
         (\<not> fst (try_ffmpeg_export env s) \<longrightarrow> percents_below 20 (snd (try_ffmpeg_export env s)))"
proof -
  let ?s1 = "s\<lparr>clips_to_remove := sort_key start (clips_to_remove s)\<rparr>"
  obtain r s2 where b: "build_ffmpeg_select_expression env ?s1 = (r, s2)"
    by (cases "build_ffmpeg_select_expression env ?s1") auto
  from assms build_percents_below [of 20 env ?s1] b have s2: "percents_below 20 s2"
    by simp
  then have "percents_below 90 s2" by (rule percents_below_mono) simp
  with s2 show ?thesis
    by (auto simp: try_ffmpeg_export_def b Let_def percents_below_progress_iff
        split: option.splits sum.splits)
qed

lemma clip_percent_mono: "i \<le> j \<Longrightarrow> clip_percent n i \<le> clip_percent n j"
  unfolding clip_percent_def by (intro py_int_mono) (simp add: divide_right_mono)

lemma clip_percent_le: "i \<le> n \<Longrightarrow> clip_percent n i \<le> 90"
proof -
  assume "i \<le> n"
  then have "30 + (real i / real n) * 60 \<le> of_int 90"
    by (cases "n = 0") (simp_all add: divide_le_eq)
  from py_int_mono [OF this] show ?thesis
    by (simp add: clip_percent_def del: of_int_numeral)
qed

lemma clip_percent_0: "clip_percent n 0 = 30"
  using py_int_of_int [of 30] by (simp add: clip_percent_def del: py_int_of_int)

lemma extract_clips_percents_below:
  "percents_below (clip_percent n i) s \<Longrightarrow> i + length ivs \<le> n \<Longrightarrow>
   percents_below 90 (snd (extract_clips env n i ivs s))"
proof (induction ivs arbitrary: i s)
  case Nil
  then show ?case by (auto intro: percents_below_mono clip_percent_le)
next
  case (Cons iv ivs)
  let ?s' = "progress (clip_percent n i) (Processing_segment (i + 1) n) s"
  from percents_below_progress [OF Cons.prems(1), of "clip_percent n i"]
  have s': "percents_below (clip_percent n i) ?s'" by simp
  then have "percents_below (clip_percent n (i + 1)) ?s'"
    by (rule percents_below_mono) (simp add: clip_percent_mono)
  from Cons.IH [OF this] Cons.prems(2)
  have "percents_below 90 (snd (extract_clips env n (i + 1) ivs ?s'))" by simp
  moreover from Cons.prems(2) have "clip_percent n i \<le> 90"
    by (intro clip_percent_le) simp
  with s' have "percents_below 90 ?s'" by (rule percents_below_mono)
  ultimately show ?case
    by (simp add: Let_def clip_percent_def split: sum.splits)
qed

lemma moviepy_export_percents_below:
  assumes "percents_below 30 s"
  shows "percents_below 100 (snd (moviepy_export env s))"
proof -
  have le: "(30::int) \<le> 100" by simp
  note s100 = percents_below_mono [OF assms le]
  show ?thesis
  proof (cases "cuda_available env")
    case (Inl e)
    with s100 show ?thesis by (simp add: moviepy_export_def)
  next
    case cu: (Inr cuda)
    define s1 where "s1 = (if cuda then emit (Status Cuda_detected) s else s)"
    from assms have s1: "percents_below 30 s1" by (simp add: s1_def)
    show ?thesis
    proof (cases "open_video env")
      case (Inl e)
      with cu percents_below_mono [OF s1 le] show ?thesis
        by (simp add: moviepy_export_def Let_def s1_def)
    next
      case ov: (Inr duration)
      define keep where "keep = moviepy_keep_times (clips_to_remove s1) duration"
      define s2 where "s2 = s1\<lparr>clips_to_remove := sort_key start (clips_to_remove s1)\<rparr>"
      from s1 have s2: "percents_below 30 s2" by (simp add: s2_def)
      show ?thesis
      proof (cases "keep = []")
        case True
        with cu ov percents_below_mono [OF s2 le] show ?thesis
          by (simp add: moviepy_export_def Let_def s1_def [symmetric] keep_def [symmetric]
              s2_def [symmetric])
      next
        case False
        define s3 where "s3 = progress 30 Optimizing s2"
        from percents_below_progress [OF s2, of 30] have "percents_below 30 s3"
          by (simp add: s3_def)
        then have "percents_below (clip_percent (length keep) 0) s3"
          by (simp add: clip_percent_0)
        from extract_clips_percents_below [OF this, of keep env]
        have ex: "percents_below 90 (snd (extract_clips env (length keep) 0 keep s3))"
          by simp
        obtain r s4 where e: "extract_clips env (length keep) 0 keep s3 = (r, s4)"
          by (cases "extract_clips env (length keep) 0 keep s3") auto
        with ex have s4: "percents_below 90 s4" by simp
        from percents_below_progress [OF s4, of 95]
        have s5: "percents_below 95 (progress 95 Concatenating s4)" by simp
        from percents_below_progress [OF s5, of 100]
        have s6: "percents_below 100 (progress 100 Export_done (progress 95 Concatenating s4))"
          by simp
        from s4 s5 s6 have "percents_below 100 s4"
          and "percents_below 100 (progress 95 Concatenating s4)"
          by (auto intro: percents_below_mono)
        with s6 cu ov False e show ?thesis
          by (simp add: moviepy_export_def Let_def s1_def [symmetric] keep_def [symmetric]
              s2_def [symmetric] s3_def [symmetric] split: sum.splits)
      qed
    qed
  qed
qed

lemma export_percents_below:
  assumes "percents_below 5 s"
  shows "percents_below 100 (export env s)"
proof -
  let ?s1 = "progress 5 Preparing (s\<lparr>current_step := 0\<rparr>)"
  from assms have "percents_below 5 (s\<lparr>current_step := 0\<rparr>)" by simp
  from percents_below_progress [OF this, of 5] have "percents_below 5 ?s1" by simp
  then have "percents_below 20 ?s1" by (rule percents_below_mono) simp
  note t = try_ffmpeg_export_percents_below [OF this, of env]
  obtain ok s2 where tr: "try_ffmpeg_export env ?s1 = (ok, s2)"
    by (cases "try_ffmpeg_export env ?s1") auto
  show ?thesis
  proof (cases ok)
    case True
    from t tr have "percents_below 90 s2" by simp
    from percents_below_progress [OF this, of 100] tr True show ?thesis
      by (simp add: export_def Let_def)
  next
    case False
    with t tr have "percents_below 20 s2" by simp
    then have "percents_below 30 (emit (Status Fallback) s2)"
      by (simp add: percents_below_mono)
    from moviepy_export_percents_below [OF this, of env] tr False show ?thesis
      by (auto simp: export_def Let_def split: prod.splits sum.splits)
  qed
qed


section \<open>The export run\<close>

lemma sort_key_idem: "sort_key f (sort_key f xs) = sort_key f xs"
  by (rule sort_key_id_if_sorted) simp

lemma ffmpeg_keep_times_sort [simp]:
  "ffmpeg_keep_times (sort_key start cs) D = ffmpeg_keep_times cs D"
  by (simp add: ffmpeg_keep_times_def sort_key_idem)

lemma moviepy_keep_times_sort [simp]:
  "moviepy_keep_times (sort_key start cs) D = moviepy_keep_times cs D"
  by (simp add: moviepy_keep_times_def sort_key_idem)

lemma filter_complex_not_Nil [simp]: "filter_complex fs keep \<noteq> []"
  by (simp add: filter_complex_def video_chain_def)

lemma build_fields [simp]:
  "video_path (snd (build_ffmpeg_select_expression env s)) = video_path s"
  "output_path (snd (build_ffmpeg_select_expression env s)) = output_path s"
  by (simp_all add: build_ffmpeg_select_expression_def Let_def split: sum.splits prod.splits)

lemma build_Some_iff:
  "fst (build_ffmpeg_select_expression env s) = Some x \<longleftrightarrow>
     (\<exists>D. ffprobe env = Inr (0, Inr D) \<and> ffmpeg_keep_times (clips_to_remove s) D \<noteq> [] \<and>
          x = filter_complex (float_str env) (ffmpeg_keep_times (clips_to_remove s) D))"
  by (auto simp: build_ffmpeg_select_expression_def Let_def split: sum.splits prod.splits)

lemma try_ffmpeg_export_True_iff:
  "fst (try_ffmpeg_export env s) \<longleftrightarrow>
     (\<exists>D. ffprobe env = Inr (0, Inr D) \<and> ffmpeg_keep_times (clips_to_remove s) D \<noteq> [] \<and>
          ffmpeg_run env
            (ffmpeg_cmd (video_path s)
               (filter_complex (float_str env) (ffmpeg_keep_times (clips_to_remove s) D))
               (output_path s) (check_hardware_acceleration env)) = Inr 0)"
proof -
  let ?s1 = "s\<lparr>clips_to_remove := sort_key start (clips_to_remove s)\<rparr>"
  obtain r s2 where b: "build_ffmpeg_select_expression env ?s1 = (r, s2)"
    by (cases "build_ffmpeg_select_expression env ?s1") auto
  from build_fields [of env ?s1] b have f: "video_path s2 = video_path s" "output_path s2 = output_path s"
    by simp_all
  from build_Some_iff [of env ?s1] b
  have r: "\<And>x. r = Some x \<longleftrightarrow>
     (\<exists>D. ffprobe env = Inr (0, Inr D) \<and> ffmpeg_keep_times (clips_to_remove s) D \<noteq> [] \<and>
          x = filter_complex (float_str env) (ffmpeg_keep_times (clips_to_remove s) D))"
    by simp
  show ?thesis
  proof (cases r)
    case None
    with r [of "filter_complex (float_str env) (ffmpeg_keep_times (clips_to_remove s) D)" for D]
    show ?thesis
      by (auto simp: try_ffmpeg_export_def b)
  next
    case (Some x)
    with r [of x] obtain D where D: "ffprobe env = Inr (0, Inr D)"
      "ffmpeg_keep_times (clips_to_remove s) D \<noteq> []"
      "x = filter_complex (float_str env) (ffmpeg_keep_times (clips_to_remove s) D)"
      by auto
    with Some f show ?thesis
      by (auto simp: try_ffmpeg_export_def b Let_def split: option.splits sum.splits)
  qed
qed

lemma try_ffmpeg_export_signals:
  "\<exists>es. signals (snd (try_ffmpeg_export env s)) = signals s @ es \<and> \<not> list_ex is_error es"
proof -
  let ?s1 = "s\<lparr>clips_to_remove := sort_key start (clips_to_remove s)\<rparr>"
  obtain r s2 where b: "build_ffmpeg_select_expression env ?s1 = (r, s2)"
    by (cases "build_ffmpeg_select_expression env ?s1") auto
  from build_signals [of env ?s1] b have "signals s2 = signals s" by simp
  then show ?thesis
    by (auto simp: try_ffmpeg_export_def b Let_def split: option.splits sum.splits)
qed

lemma extract_clips_signals:
  "\<exists>es. signals (snd (extract_clips env n i ivs s)) = signals s @ es"
proof (induction ivs arbitrary: i s)
  case Nil
  show ?case by simp
next
  case (Cons iv ivs)
  let ?s' = "progress (py_int (30 + real i / real n * 60)) (Processing_segment (i + 1) n) s"
  from Cons.IH [of "i + 1" ?s'] show ?case
    by (auto simp: Let_def split: sum.splits)
qed

lemma moviepy_export_signals:
  "\<exists>es. signals (snd (moviepy_export env s)) = signals s @ es"
proof (cases "cuda_available env")
  case (Inl e)
  then show ?thesis by (simp add: moviepy_export_def)
next
  case cu: (Inr cuda)
  show ?thesis
  proof (cases "open_video env")
    case (Inl e)
    with cu show ?thesis by (simp add: moviepy_export_def Let_def)
  next
    case ov: (Inr D)
    define s1 where "s1 = (if cuda then emit (Status Cuda_detected) s else s)"
    define keep where "keep = moviepy_keep_times (clips_to_remove s1) D"
    define s3 where
      "s3 = progress 30 Optimizing (s1\<lparr>clips_to_remove := sort_key start (clips_to_remove s1)\<rparr>)"
    obtain r s4 where e: "extract_clips env (length keep) 0 keep s3 = (r, s4)"
      by (cases "extract_clips env (length keep) 0 keep s3") auto
    with extract_clips_signals [of env "length keep" 0 keep s3]
    obtain es where "signals s4 = signals s3 @ es" by auto
    then have "\<exists>es. signals s4 = signals s @ es"
      by (simp add: s3_def s1_def)
    moreover have "\<exists>es. signals s1 = signals s @ es"
      by (simp add: s1_def)
    ultimately show ?thesis using cu ov e
      by (auto simp: moviepy_export_def Let_def s1_def [symmetric] keep_def [symmetric]
          s3_def [symmetric] split: sum.splits)
  qed
qed

lemma export_fallback:
  "\<not> fst (try_ffmpeg_export env (progress 5 Preparing (s\<lparr>current_step := 0\<rparr>))) \<Longrightarrow>
   export env s =
     after_fallback (moviepy_export env (emit (Status Fallback)
       (snd (try_ffmpeg_export env (progress 5 Preparing (s\<lparr>current_step := 0\<rparr>))))))"
  by (cases "try_ffmpeg_export env (progress 5 Preparing (s\<lparr>current_step := 0\<rparr>))")
    (simp add: export_def after_fallback_def Let_def)

lemma after_fallback_signals:
  "\<exists>es. signals (after_fallback r) = signals (snd r) @ es"
  by (cases r) (auto simp: after_fallback_def split: sum.splits)

lemma export_fallback_status:
  assumes "\<not> fst (try_ffmpeg_export env (progress 5 Preparing (s\<lparr>current_step := 0\<rparr>)))"
  shows "Status Fallback \<in> set (signals (export env s))"
proof -
  let ?s2 = "snd (try_ffmpeg_export env (progress 5 Preparing (s\<lparr>current_step := 0\<rparr>)))"
  from moviepy_export_signals [of env "emit (Status Fallback) ?s2"]
  obtain es where "signals (snd (moviepy_export env (emit (Status Fallback) ?s2))) =
      signals ?s2 @ [Status Fallback] @ es"
    by auto
  moreover from after_fallback_signals [of "moviepy_export env (emit (Status Fallback) ?s2)"]
  obtain es' where "signals (after_fallback (moviepy_export env (emit (Status Fallback) ?s2))) =
      signals (snd (moviepy_export env (emit (Status Fallback) ?s2))) @ es'"
    by auto
  ultimately show ?thesis
    by (simp add: export_fallback [OF assms])
qed

lemma single_clip_keep_times:
  "start c = 0 \<Longrightarrow> end' c = D \<Longrightarrow> ffmpeg_keep_times [c] D = [] \<and> moviepy_keep_times [c] D = []"
  by (simp add: ffmpeg_keep_times_def moviepy_keep_times_def ffmpeg_keep_step_def
      moviepy_keep_step_def)

lemma try_ffmpeg_export_empty:
  assumes "ffprobe env = Inr (0, Inr D)" and "ffmpeg_keep_times (clips_to_remove s) D = []"
  shows "try_ffmpeg_export env s = (False, s\<lparr>clips_to_remove := sort_key start (clips_to_remove s)\<rparr>)"
  using assms
  by (simp add: try_ffmpeg_export_def build_ffmpeg_select_expression_def Let_def sort_key_idem)

lemma moviepy_export_empty:
  assumes "cuda_available env = Inr c" and "open_video env = Inr D'"
    and "moviepy_keep_times (clips_to_remove s) D' = []"
  shows "signals (snd (moviepy_export env s)) =
     signals s @ (if c then [Status Cuda_detected] else []) @ [Error No_keep_segments] \<and>
     fst (moviepy_export env s) = Inr ()"
  using assms by (simp add: moviepy_export_def Let_def)

text \<open>
  C3, as the code has it. A primary attempt that returns \<open>False\<close> is always followed by the
  fallback status and the fallback itself; an empty keep-interval sequence is one such
  failure (the primary attempt returns \<open>False\<close> before any encoder runs), and when the
  fallback's own keep intervals are empty too it emits the error "no segment to keep" and
  stops without extracting or writing. A single removal clip equal to \<open>[0, D]\<close> empties the
  keep intervals of both paths.
\<close>

theorem fallback_after_primary_failure:
  "(\<not> fst (try_ffmpeg_export env (progress 5 Preparing (s\<lparr>current_step := 0\<rparr>))) \<longrightarrow>
      Status Fallback \<in> set (signals (export env s))) \<and>
   (ffprobe env = Inr (0, Inr D) \<and> ffmpeg_keep_times (clips_to_remove s) D = [] \<longrightarrow>
      \<not> fst (try_ffmpeg_export env (progress 5 Preparing (s\<lparr>current_step := 0\<rparr>))) \<and>
      (cuda_available env = Inr c \<and> open_video env = Inr D' \<and>
       moviepy_keep_times (clips_to_remove s) D' = [] \<longrightarrow>
         signals (export env s) =
           signals s @ [Progress 5 Preparing, Status Fallback]
             @ (if c then [Status Cuda_detected] else []) @ [Error No_keep_segments])) \<and>
   (start clip = 0 \<and> end' clip = D \<longrightarrow>
      ffmpeg_keep_times [clip] D = [] \<and> moviepy_keep_times [clip] D = [])"
proof (intro conjI impI)
  let ?s1 = "progress 5 Preparing (s\<lparr>current_step := 0\<rparr>)"
  show "Status Fallback \<in> set (signals (export env s))"
    if "\<not> fst (try_ffmpeg_export env ?s1)"
    using that by (rule export_fallback_status)
  show "ffmpeg_keep_times [clip] D = []" and "moviepy_keep_times [clip] D = []"
    if "start clip = 0 \<and> end' clip = D"
    using that single_clip_keep_times [of clip D] by simp_all
  assume a: "ffprobe env = Inr (0, Inr D) \<and> ffmpeg_keep_times (clips_to_remove s) D = []"
  then have t: "try_ffmpeg_export env ?s1 =
      (False, ?s1\<lparr>clips_to_remove := sort_key start (clips_to_remove ?s1)\<rparr>)"
    using try_ffmpeg_export_empty [of env D ?s1] by simp
  then show nf: "\<not> fst (try_ffmpeg_export env ?s1)" by simp
  assume b: "cuda_available env = Inr c \<and> open_video env = Inr D' \<and>
       moviepy_keep_times (clips_to_remove s) D' = []"
  let ?s3 = "emit (Status Fallback) (?s1\<lparr>clips_to_remove := sort_key start (clips_to_remove ?s1)\<rparr>)"
  from b have "moviepy_keep_times (clips_to_remove ?s3) D' = []" by simp
  with b moviepy_export_empty [of env c D' ?s3]
  have "signals (snd (moviepy_export env ?s3)) =
     signals ?s3 @ (if c then [Status Cuda_detected] else []) @ [Error No_keep_segments]"
    and "fst (moviepy_export env ?s3) = Inr ()"
    by simp_all
  then show "signals (export env s) =
           signals s @ [Progress 5 Preparing, Status Fallback]
             @ (if c then [Status Cuda_detected] else []) @ [Error No_keep_segments]"
    by (cases "moviepy_export env ?s3") (simp add: export_fallback [OF nf] t after_fallback_def)
qed

lemma export_processor_fields [simp]:
  "clips_to_remove (export_processor path clips out) = clips"
  "signals (export_processor path clips out) = []"
  "video_path (export_processor path clips out) = path"
  "output_path (export_processor path clips out) = out"
  by (simp_all add: export_processor_def init_def)

lemma demo_env_fields [simp]:
  "ffprobe demo_env = Inr (0, Inr 6)"
  "cuda_available demo_env = Inr False"
  "open_video demo_env = Inr 6"
  "ffmpeg_run demo_env cmd = Inl (Exception ''No such file or directory'')"
  "subclip demo_env a b = Inr ()"
  "write_videofile demo_env keep = Inr ()"
  "close_video demo_env = Inr ()"
  "ffmpeg_encoders demo_env = Inr '' V..... h264_amf  V..... h264_qsv''"
  by (simp_all add: demo_env_def)

text \<open>
  C3, witness: a single removal clip \<open>(0, 6)\<close> on a medium of 6 seconds.
\<close>

theorem fallback_after_primary_failure_witness:
  "ffmpeg_keep_times [removal 0 6] 6 = [] \<and>
   signals (export demo_env (export_processor ''in.mp4'' [removal 0 6] ''out.mp4'')) =
     [Progress 5 Preparing, Status Fallback, Error No_keep_segments]"
proof -
  have k: "ffmpeg_keep_times [removal 0 6] 6 = []" "moviepy_keep_times [removal 0 6] 6 = []"
    using single_clip_keep_times [of "removal 0 6" 6] by simp_all
  with fallback_after_primary_failure [of demo_env
      "export_processor ''in.mp4'' [removal 0 6] ''out.mp4''" 6 False 6]
  show ?thesis by simp
qed

text \<open>
  C3, counterexample to "without attempting the fallback path": with nothing to keep, the
  run emits the fallback status (line 199) and enters \<^verbatim>\<open>_moviepy_export\<close>.
\<close>

theorem empty_keep_times_enter_fallback:
  "ffmpeg_keep_times [removal 0 6] 6 = [] \<and>
   Status Fallback \<in> set (signals (export demo_env
     (export_processor ''in.mp4'' [removal 0 6] ''out.mp4'')))"
proof -
  have "ffmpeg_keep_times [removal 0 6] 6 = []"
    by (simp add: ffmpeg_keep_times_def ffmpeg_keep_step_def)
  moreover have "\<not> fst (try_ffmpeg_export demo_env (progress 5 Preparing
      ((export_processor ''in.mp4'' [removal 0 6] ''out.mp4'')\<lparr>current_step := 0\<rparr>)))"
    using calculation by (simp add: try_ffmpeg_export_empty [of _ 6])
  ultimately show ?thesis
    by (simp add: export_fallback_status)
qed

section \<open>The claims on detection, progress and the primary attempt\<close>

text \<open>
  C4, as the code has it. After a token the cursor \<^verbatim>\<open>last_word_end\<close> is that token's
  end (line 129 assigns \<^verbatim>\<open>word.end\<close>, there is no \<^verbatim>\<open>max\<close>); and for a threshold
  \<open>\<ge> 0\<close> every emitted SILENCE clip has its end strictly after its start.
\<close>

theorem cursor_is_last_word_end:
  "last_word_end_after strip fillers threshold (ws @ [w]) = wend w \<and>
   (0 \<le> threshold \<longrightarrow>
      (\<forall>c\<in>set (detect strip fillers threshold ws). type c = SILENCE \<longrightarrow> start c < end' c))"
proof -
  have "start c < end' c"
    if "0 \<le> threshold" and "c \<in> set (detect strip fillers threshold ws)" and "type c = SILENCE"
    for c
    using that silence_clips_exceed [of strip fillers threshold ws] by fastforce
  then show ?thesis
    by (simp add: last_word_end_after_snoc)
qed

text \<open>
  C4, witness: two tokens eight and five seconds apart, threshold one half.
\<close>

theorem cursor_is_last_word_end_witness:
  "last_word_end_after (\<lambda>text. text) [] (1 / 2) ([tok 0 5 ''a''] @ [tok 8 9 ''b'']) = 9 \<and>
   detect (\<lambda>text. text) [] (1 / 2) [tok 0 5 ''a'', tok 8 9 ''b''] =
     [\<lparr>type = SILENCE, start = 5, end' = 8, content = []\<rparr>]"
proof -
  have "detect (\<lambda>text. text) [] (1 / 2) [tok 0 5 ''a'', tok 8 9 ''b''] =
     [\<lparr>type = SILENCE, start = 5, end' = 8, content = []\<rparr>]"
    by (simp add: detect_def word_step_pair)
  with cursor_is_last_word_end [of "\<lambda>text. text" "[]" "1 / 2" "[tok 0 5 ''a'']" "tok 8 9 ''b''"]
  show ?thesis by simp
qed

text \<open>
  C4, counterexample to "the cursor never decreases": a token \<open>(1, 2)\<close> arriving after a
  token \<open>(0, 5)\<close> moves the cursor from 5 back to 2.
\<close>

theorem cursor_decreases:
  "last_word_end_after (\<lambda>text. text) [] (1 / 2) [tok 0 5 ''a''] = 5 \<and>
   last_word_end_after (\<lambda>text. text) [] (1 / 2) [tok 0 5 ''a'', tok 1 2 ''b''] = 2 \<and>
   \<not> last_word_end_after (\<lambda>text. text) [] (1 / 2) [tok 0 5 ''a'']
       \<le> last_word_end_after (\<lambda>text. text) [] (1 / 2) ([tok 0 5 ''a''] @ [tok 1 2 ''b''])"
  by (simp add: last_word_end_after_def word_step_pair)


lemma demo_analyze_env_fields [simp]:
  "extract_audio demo_analyze_env = Inr ()"
  "transcribe_count demo_analyze_env =
     Inr ([\<lparr>words = [tok 0 1 ''a'']\<rparr>, \<lparr>words = [tok (6 / 5) 2 ''b'']\<rparr>], None)"
  "transcribe demo_analyze_env =
     Inr ([\<lparr>words = [tok 0 1 ''a'']\<rparr>, \<lparr>words = [tok (6 / 5) 2 ''b'']\<rparr>], None)"
  "str_strip demo_analyze_env = (\<lambda>text. text)"
  by (simp_all add: demo_analyze_env_def)

lemma init_fields [simp]:
  "filler_words (init path f th) = f"
  "silence_threshold (init path f th) = th"
  "signals (init path f th) = []"
  by (simp_all add: init_def)


text \<open>
  The percents of the progress signals of one \<^verbatim>\<open>export\<close> run are non-decreasing, whatever
  the collaborators return or raise and however many keep intervals there are; those of one
  \<^verbatim>\<open>analyze\<close> run are so when the second transcription yields no more segments than the
  first one counted.
\<close>

theorem progress_percents_non_decreasing:
  "((\<forall>counted segments raised.
        transcribe_count aenv = Inr (counted, None) \<and> transcribe aenv = Inr (segments, raised)
          \<longrightarrow> length segments \<le> length counted)
      \<longrightarrow> sorted (percents (analyze aenv (init path fillers threshold)))) \<and>
   sorted (percents (export env (export_processor path' clips out)))"
proof (intro conjI impI)
  have a: "percents_below 10 (init path fillers threshold)"
    by (simp add: percents_below_def)
  show "sorted (percents (analyze aenv (init path fillers threshold)))"
    if "\<forall>counted segments raised.
        transcribe_count aenv = Inr (counted, None) \<and> transcribe aenv = Inr (segments, raised)
          \<longrightarrow> length segments \<le> length counted"
    using analyze_percents_below [OF a that] by (rule percents_below_sorted)
  have "percents_below 5 (export_processor path' clips out)"
    by (simp add: percents_below_def percents_def)
  from export_percents_below [OF this]
  show "sorted (percents (export env (export_processor path' clips out)))"
    by (rule percents_below_sorted)
qed

text \<open>
  An analysis of two segments and an export that falls back, as instances.
\<close>

theorem progress_percents_non_decreasing_witness:
  "percents (analyze demo_analyze_env (init ''in.mp4'' [''um''] (1 / 2))) = [10, 30, 50, 70, 100] \<and>
   sorted (percents (analyze demo_analyze_env (init ''in.mp4'' [''um''] (1 / 2)))) \<and>
   sorted (percents (export demo_env (export_processor ''in.mp4'' [removal 1 3] ''out.mp4'')))"
proof -
  have len: "\<forall>counted segments raised.
      transcribe_count demo_analyze_env = Inr (counted, None) \<and>
      transcribe demo_analyze_env = Inr (segments, raised)
        \<longrightarrow> length segments \<le> length counted"
    by auto
  have "percents (analyze demo_analyze_env (init ''in.mp4'' [''um''] (1 / 2))) = [10, 30, 50, 70, 100]"
    by code_simp
  with progress_percents_non_decreasing [of demo_analyze_env "''in.mp4''" "[''um'']" "1 / 2"
      demo_env "''in.mp4''" "[removal 1 3]" "''out.mp4''"] len
  show ?thesis by blast
qed

text \<open>
  C9, the run where the code fails the claim. The total of line 105 is counted on the first
  transcription, the loop of line 112 runs over the second: when the first pass yields one
  segment and the second three, \<^verbatim>\<open>analyze\<close> emits the percents 10, 30, 70, 110, 150 and
  then 100.
\<close>

theorem analyze_percents_decrease:
  "percents (analyze recount_env (init ''in.mp4'' [] (1 / 2))) = [10, 30, 70, 110, 150, 100] \<and>
   \<not> sorted (percents (analyze recount_env (init ''in.mp4'' [] (1 / 2))))"
proof -
  have "percents (analyze recount_env (init ''in.mp4'' [] (1 / 2))) = [10, 30, 70, 110, 150, 100]"
    by code_simp
  then show ?thesis by simp
qed

text \<open>
  C10. \<^verbatim>\<open>_try_ffmpeg_export\<close> returns \<open>True\<close> exactly when the probe gives a duration
  with exit code 0, something is kept and the encoder process exits with 0; in every other
  case (each exception included) it returns \<open>False\<close>. It emits no error signal, and after a
  \<open>False\<close> the export run continues with the fallback status and \<^verbatim>\<open>_moviepy_export\<close>.
\<close>

theorem primary_attempt_failure_is_contained:
  "(fst (try_ffmpeg_export env (progress 5 Preparing (s\<lparr>current_step := 0\<rparr>))) \<longleftrightarrow>
      (\<exists>D. ffprobe env = Inr (0, Inr D) \<and> ffmpeg_keep_times (clips_to_remove s) D \<noteq> [] \<and>
           ffmpeg_run env
             (ffmpeg_cmd (video_path s)
                (filter_complex (float_str env) (ffmpeg_keep_times (clips_to_remove s) D))
                (output_path s) (check_hardware_acceleration env)) = Inr 0)) \<and>
   (\<exists>es. signals (snd (try_ffmpeg_export env (progress 5 Preparing (s\<lparr>current_step := 0\<rparr>)))) =
           signals s @ [Progress 5 Preparing] @ es \<and> \<not> list_ex is_error es) \<and>
   (\<not> fst (try_ffmpeg_export env (progress 5 Preparing (s\<lparr>current_step := 0\<rparr>))) \<longrightarrow>
      export env s =
        after_fallback (moviepy_export env (emit (Status Fallback)
          (snd (try_ffmpeg_export env (progress 5 Preparing (s\<lparr>current_step := 0\<rparr>)))))) \<and>
      Status Fallback \<in> set (signals (export env s)))"
proof (intro conjI impI)
  let ?s1 = "progress 5 Preparing (s\<lparr>current_step := 0\<rparr>)"
  show "fst (try_ffmpeg_export env ?s1) \<longleftrightarrow>
      (\<exists>D. ffprobe env = Inr (0, Inr D) \<and> ffmpeg_keep_times (clips_to_remove s) D \<noteq> [] \<and>
           ffmpeg_run env
             (ffmpeg_cmd (video_path s)
                (filter_complex (float_str env) (ffmpeg_keep_times (clips_to_remove s) D))
                (output_path s) (check_hardware_acceleration env)) = Inr 0)"
    using try_ffmpeg_export_True_iff [of env ?s1] by simp
  from try_ffmpeg_export_signals [of env ?s1]
  show "\<exists>es. signals (snd (try_ffmpeg_export env ?s1)) =
           signals s @ [Progress 5 Preparing] @ es \<and> \<not> list_ex is_error es"
    by simp
  assume nf: "\<not> fst (try_ffmpeg_export env ?s1)"
  then show "export env s =
        after_fallback (moviepy_export env (emit (Status Fallback)
          (snd (try_ffmpeg_export env ?s1))))"
    by (rule export_fallback)
  from nf show "Status Fallback \<in> set (signals (export env s))"
    by (rule export_fallback_status)
qed

text \<open>
  C10, witness: the encoder binary is missing, the run goes on to the fallback.
\<close>

theorem primary_attempt_failure_is_contained_witness:
  "\<not> fst (try_ffmpeg_export demo_env (progress 5 Preparing
      ((export_processor ''in.mp4'' [removal 1 3] ''out.mp4'')\<lparr>current_step := 0\<rparr>))) \<and>
   Status Fallback \<in> set (signals (export demo_env
      (export_processor ''in.mp4'' [removal 1 3] ''out.mp4'')))"
proof -
  let ?s = "export_processor ''in.mp4'' [removal 1 3] ''out.mp4''"
  note t = primary_attempt_failure_is_contained [of demo_env ?s]
  from t have nf: "\<not> fst (try_ffmpeg_export demo_env (progress 5 Preparing (?s\<lparr>current_step := 0\<rparr>)))"
    by simp
  with t show ?thesis by blast
qed

text \<open>
  C8. The video codec of the encoder command line (the argument after \<^verbatim>\<open>-c:v\<close>) is NVENC if
  the encoder list names it, otherwise AMF if named, otherwise QSV if named, otherwise the
  software encoder \<^verbatim>\<open>libx264\<close>, which is also used when the probe raises.
\<close>

theorem encoder_priority:
  "(ffmpeg_encoders env = Inr encoders \<longrightarrow>
      ffmpeg_cmd path select_expr out (check_hardware_acceleration env) ! 9 = ''-c:v'' \<and>
      ffmpeg_cmd path select_expr out (check_hardware_acceleration env) ! 10 =
        (if contains ''h264_nvenc'' encoders then ''h264_nvenc''
         else if contains ''h264_amf'' encoders then ''h264_amf''
         else if contains ''h264_qsv'' encoders then ''h264_qsv''
         else ''libx264'')) \<and>
   (ffmpeg_encoders env = Inl e \<longrightarrow>
      ffmpeg_cmd path select_expr out (check_hardware_acceleration env) ! 9 = ''-c:v'' \<and>
      ffmpeg_cmd path select_expr out (check_hardware_acceleration env) ! 10 = ''libx264'')"
  by (simp add: check_hardware_acceleration_def ffmpeg_cmd_def)

text \<open>
  C8, witness: a host whose encoder list names AMF and QSV.
\<close>

theorem encoder_priority_witness:
  "ffmpeg_cmd ''in.mp4'' ''expr'' ''out.mp4'' (check_hardware_acceleration demo_env) ! 10 = ''h264_amf''"
proof -
  have "contains ''h264_nvenc'' '' V..... h264_amf  V..... h264_qsv'' = False"
    and "contains ''h264_amf'' '' V..... h264_amf  V..... h264_qsv'' = True"
    by code_simp+
  with encoder_priority [of demo_env "'' V..... h264_amf  V..... h264_qsv''" "''in.mp4''" "''expr''"
      "''out.mp4''"]
  show ?thesis by simp
qed

section \<open>The ETA text and the filter expression\<close>

declare digits.simps [simp del]


lemma py_int_nonneg: "0 \<le> x \<Longrightarrow> py_int x = \<lfloor>x\<rfloor>"
  by (simp add: py_int_def)

lemma py_fmod_floor:
  assumes "0 < m"
  shows "\<lfloor>py_fmod x (of_int m)\<rfloor> = \<lfloor>x\<rfloor> mod m" and "0 \<le> py_fmod x (of_int m)"
proof -
  have q: "\<lfloor>x / of_int m\<rfloor> = \<lfloor>x\<rfloor> div m"
    using assms by (simp add: floor_divide_real_eq_div)
  have "py_fmod x (of_int m) = x - of_int (m * (\<lfloor>x\<rfloor> div m))"
    by (simp add: py_fmod_def q)
  then have "\<lfloor>py_fmod x (of_int m)\<rfloor> = \<lfloor>x\<rfloor> - m * (\<lfloor>x\<rfloor> div m)"
    by (simp only: floor_diff_of_int)
  then show "\<lfloor>py_fmod x (of_int m)\<rfloor> = \<lfloor>x\<rfloor> mod m"
    by (simp add: minus_mult_div_eq_mod)
  from assms have "of_int \<lfloor>x / of_int m\<rfloor> * real_of_int m \<le> x"
    using of_int_floor_le [of "x / of_int m"] by (simp add: le_divide_eq)
  then show "0 \<le> py_fmod x (of_int m)"
    by (simp add: py_fmod_def mult.commute)
qed

lemma py_int_fmod: "0 < m \<Longrightarrow> py_int (py_fmod r (of_int m)) = \<lfloor>r\<rfloor> mod m"
  using py_fmod_floor [of m r] by (simp add: py_int_def)

lemma seconds_part: "py_int (py_fmod r 60) = \<lfloor>r\<rfloor> mod 60"
  using py_int_fmod [of 60 r] by simp



lemma select_value_simps:
  "select_value [] t = 0"
  "select_value (iv # ivs) t = between t (fst iv) (snd iv) + select_value ivs t"
  by (simp_all add: select_value_def)

lemma select_value_nonneg: "0 \<le> select_value keep t"
  by (induction keep) (simp_all add: select_value_simps between_def)

lemma selects_iff: "selects keep t \<longleftrightarrow> (\<exists>iv\<in>set keep. fst iv \<le> t \<and> t \<le> snd iv)"
proof (induction keep)
  case Nil
  show ?case by (simp add: selects_def select_value_simps)
next
  case (Cons iv keep)
  with select_value_nonneg [of keep t] show ?case
    by (auto simp: selects_def select_value_simps between_def)
qed

text \<open>
  C5, as the code has it. For a non-empty keep-interval sequence the filter graph is the video
  chain and the audio chain around one and the same predicate text, the \<^verbatim>\<open>+\<close>-joined
  terms \<^verbatim>\<open>between(t,start,end)\<close> of the keep intervals in order; the encoder selects a
  time \<open>t\<close> exactly when \<open>start \<le> t \<le> end\<close> for one of them (both ends inclusive).
\<close>

theorem filter_expression_closed_intervals:
  "(ffprobe env = Inr (0, Inr D) \<and> keep = ffmpeg_keep_times (clips_to_remove s) D \<and> keep \<noteq> [] \<longrightarrow>
      fst (build_ffmpeg_select_expression env s) =
        Some (video_chain (select_condition (float_str env) keep)
              @ audio_chain (select_condition (float_str env) keep))) \<and>
   select_condition fs keep =
     join ''+'' (map (\<lambda>iv. ''between(t,'' @ fs (fst iv) @ '','' @ fs (snd iv) @ '')'') keep) \<and>
   (selects keep t \<longleftrightarrow> (\<exists>iv\<in>set keep. fst iv \<le> t \<and> t \<le> snd iv))"
proof (intro conjI impI)
  show "fst (build_ffmpeg_select_expression env s) =
        Some (video_chain (select_condition (float_str env) keep)
              @ audio_chain (select_condition (float_str env) keep))"
    if "ffprobe env = Inr (0, Inr D) \<and> keep = ffmpeg_keep_times (clips_to_remove s) D \<and> keep \<noteq> []"
  proof -
    from that have p: "ffprobe env = Inr (0, Inr D)"
      and k: "ffmpeg_keep_times (clips_to_remove s) D = keep" and ne: "keep \<noteq> []"
      by blast+
    have "fst (build_ffmpeg_select_expression env s) = Some (filter_complex (float_str env) keep)"
      unfolding build_Some_iff using p k ne by simp
    then show ?thesis by (simp add: filter_complex_def)
  qed
  show "select_condition fs keep =
     join ''+'' (map (\<lambda>iv. ''between(t,'' @ fs (fst iv) @ '','' @ fs (snd iv) @ '')'') keep)"
    by (simp add: select_condition_def condition_def [abs_def])
  show "selects keep t \<longleftrightarrow> (\<exists>iv\<in>set keep. fst iv \<le> t \<and> t \<le> snd iv)"
    by (rule selects_iff)
qed

text \<open>
  C5, witness: the removal clip \<open>(1, 3)\<close> on a medium of 6 seconds.
\<close>

theorem filter_expression_closed_intervals_witness:
  "fst (build_ffmpeg_select_expression demo_env
      (export_processor ''in.mp4'' [removal 1 3] ''out.mp4'')) =
     Some (video_chain ''between(t,0.0,0.0)+between(t,0.0,0.0)''
           @ audio_chain ''between(t,0.0,0.0)+between(t,0.0,0.0)'') \<and>
   selects [(0, 1), (3, 6)] 1 \<and> \<not> selects [(0, 1), (3, 6)] 2"
proof -
  let ?s = "export_processor ''in.mp4'' [removal 1 3] ''out.mp4''"
  have k: "ffmpeg_keep_times [removal 1 3] 6 = [(0, 1), (3, 6)]"
    by (simp add: ffmpeg_keep_times_def ffmpeg_keep_step_def)
  have f: "float_str demo_env = (\<lambda>r. ''0.0'')" by (simp add: demo_env_def)
  from filter_expression_closed_intervals [of demo_env 6 "[(0, 1), (3, 6)]" ?s "\<lambda>r. ''0.0''" 1] k
  have "fst (build_ffmpeg_select_expression demo_env ?s) =
     Some (video_chain ''between(t,0.0,0.0)+between(t,0.0,0.0)''
           @ audio_chain ''between(t,0.0,0.0)+between(t,0.0,0.0)'')"
    and "selects [(0, 1), (3, 6)] 1"
    by (simp_all add: f)
  moreover from filter_expression_closed_intervals [of demo_env 6 "[(0, 1), (3, 6)]" ?s "\<lambda>r. ''0.0''" 2]
  have "\<not> selects [(0, 1), (3, 6)] 2" by simp
  ultimately show ?thesis by simp
qed

text \<open>
  C5, counterexample to "inclusive start, exclusive end": for the keep interval \<open>(0, 1)\<close>
  the predicate selects the time 1, which \<open>0 \<le> t < 1\<close> excludes.
\<close>

theorem interval_end_is_selected:
  "selects [(0, 1)] 1 \<and> \<not> covered [(0, 1)] 1"
  by (simp add: selects_def select_value_def between_def covered_def)

end
